theory Spec2Isabelle
  imports Main
begin

section \<open>Text: the operations of QString that mediawiki.cc uses\<close>

text \<open>
  All text of the program (QString, QByteArray, std::string, gd::wstring) is a list of
  code units, \<^typ>\<open>string\<close>; the size of a text is the length of the list.
  \<open>indexOf\<close> is QString::indexOf: the position of the first occurrence at or after
  \<open>from\<close>, or -1.
\<close>

fun indexOfFrom :: "string \<Rightarrow> string \<Rightarrow> nat \<Rightarrow> int" where
  "indexOfFrom pat [] k = (if pat = [] then int k else - 1)"
| "indexOfFrom pat (c # cs) k =
     (if take (length pat) (c # cs) = pat then int k else indexOfFrom pat cs (Suc k))"

definition indexOf :: "string \<Rightarrow> string \<Rightarrow> int" where
  "indexOf s pat = indexOfFrom pat s 0"

definition indexOfAt :: "string \<Rightarrow> string \<Rightarrow> nat \<Rightarrow> int" where
  "indexOfAt s pat from = indexOfFrom pat (drop from s) from"

text \<open>
  QString::replace(before, after) with a non-empty \<open>before\<close>: every occurrence,
  found from left to right without overlap, is replaced.
\<close>

fun replaceAll :: "string \<Rightarrow> string \<Rightarrow> string \<Rightarrow> string" where
  "replaceAll before after [] = []"
| "replaceAll before after (c # cs) =
     (if before \<noteq> [] \<and> take (length before) (c # cs) = before
      then after @ replaceAll before after (drop (length before) (c # cs))
      else c # replaceAll before after cs)"

text \<open>QString::replace(pos, n, after) and QString::mid.\<close>

definition replaceAt :: "string \<Rightarrow> nat \<Rightarrow> nat \<Rightarrow> string \<Rightarrow> string" where
  "replaceAt s pos n after = take pos s @ after @ drop (pos + n) s"

definition mid :: "string \<Rightarrow> nat \<Rightarrow> nat \<Rightarrow> string" where
  "mid s pos n = take n (drop pos s)"

text \<open>
  QString::toInt and QString::toLongLong, base 10, in the C locale: white space around
  the number is skipped, one sign is allowed, at least one digit is needed, and a value
  outside the range of the result type is a failed conversion.  \<open>toInt\<close> reports the
  failure (the \<open>ok\<close> flag of the source) as \<open>None\<close>; \<open>toLongLong\<close> is called without
  the flag and yields 0 then.
\<close>

definition isSpace :: "char \<Rightarrow> bool" where
  "isSpace c = (c \<in> set [CHR '' '', CHR 0x09, CHR ''\<newline>'', CHR 0x0B, CHR 0x0C, CHR 0x0D])"

definition digitValue :: "char \<Rightarrow> int option" where
  "digitValue c = map_of (zip ''0123456789'' [0, 1, 2, 3, 4, 5, 6, 7, 8, 9]) c"

fun digitsValue :: "int \<Rightarrow> string \<Rightarrow> int option" where
  "digitsValue acc [] = Some acc"
| "digitsValue acc (c # cs) =
     (case digitValue c of None \<Rightarrow> None | Some d \<Rightarrow> digitsValue (10 * acc + d) cs)"

definition trimmed :: "string \<Rightarrow> string" where
  "trimmed s = rev (dropWhile isSpace (rev (dropWhile isSpace s)))"

definition toIntegral :: "string \<Rightarrow> int option" where
  "toIntegral s =
     (case trimmed s of
        [] \<Rightarrow> None
      | c # cs \<Rightarrow>
          (if c = CHR ''-'' then
             (if cs = [] then None else map_option uminus (digitsValue 0 cs))
           else if c = CHR ''+'' then
             (if cs = [] then None else digitsValue 0 cs)
           else digitsValue 0 (c # cs)))"

definition toInt :: "string \<Rightarrow> int option" where
  "toInt s =
     (case toIntegral s of
        None \<Rightarrow> None
      | Some v \<Rightarrow> if - (2 ^ 31) \<le> v \<and> v < 2 ^ 31 then Some v else None)"

definition toLongLong :: "string \<Rightarrow> int" where
  "toLongLong s =
     (case toIntegral s of
        None \<Rightarrow> 0
      | Some v \<Rightarrow> if - (2 ^ 63) \<le> v \<and> v < 2 ^ 63 then v else 0)"


section \<open>The XML document of a reply\<close>

text \<open>
  A parsed reply is a QDomDocument.  The program reads it through \<open>namedItem\<close>,
  \<open>firstChildElement\<close>, \<open>nextSiblingElement\<close>, \<open>attribute\<close> and \<open>text\<close> only, so a
  node is an element (tag name, attributes, children) or a piece of character data.
  A null node is \<open>None\<close>.
\<close>

datatype node =
    Element string "(string \<times> string) list" "node list"
  | Text string

fun nodeName :: "node \<Rightarrow> string" where
  "nodeName (Element tag attrs kids) = tag"
| "nodeName (Text t) = ''#text''"

fun childNodes :: "node \<Rightarrow> node list" where
  "childNodes (Element tag attrs kids) = kids"
| "childNodes (Text t) = []"

fun isElement :: "node \<Rightarrow> bool" where
  "isElement (Element tag attrs kids) = True"
| "isElement (Text t) = False"

text \<open>QDomNode::namedItem: the first child whose node name is the given one.\<close>

definition namedItemIn :: "node list \<Rightarrow> string \<Rightarrow> node option" where
  "namedItemIn kids name = find (\<lambda>k. nodeName k = name) kids"

definition namedItem :: "node option \<Rightarrow> string \<Rightarrow> node option" where
  "namedItem n name = (case n of None \<Rightarrow> None | Some x \<Rightarrow> namedItemIn (childNodes x) name)"

text \<open>
  The child elements with a given tag, in document order: what the walk
  \<open>firstChildElement(tag)\<close>, \<open>nextSiblingElement(tag)\<close>, ... visits.
\<close>

definition childElements :: "node \<Rightarrow> string \<Rightarrow> node list" where
  "childElements n tag = filter (\<lambda>k. isElement k \<and> nodeName k = tag) (childNodes n)"

definition firstChildElement :: "node \<Rightarrow> string \<Rightarrow> node option" where
  "firstChildElement n tag = (case childElements n tag of [] \<Rightarrow> None | k # _ \<Rightarrow> Some k)"

text \<open>
  QDomElement::attribute: the value of the attribute, the empty text when the element
  has no such attribute (or the node is no element).
\<close>

fun attribute :: "node \<Rightarrow> string \<Rightarrow> string" where
  "attribute (Element tag attrs kids) name =
     (case map_of attrs name of None \<Rightarrow> [] | Some v \<Rightarrow> v)"
| "attribute (Text t) name = []"

text \<open>QDomElement::text: the character data of the element and of its descendants.\<close>

fun nodeText :: "node \<Rightarrow> string" where
  "nodeText (Text t) = t"
| "nodeText (Element tag attrs kids) = concat (map nodeText kids)"


section \<open>SmallSet\<close>

text \<open>
  \<open>SmallSet::insert\<close> on the vector \<open>elements\<close>: the result of the call and the
  vector afterwards.
\<close>

definition insert_SmallSet :: "'a \<Rightarrow> 'a list \<Rightarrow> bool \<times> 'a list" where
  "insert_SmallSet x elements =
     (if x \<in> set elements then (False, elements) else (True, elements @ [x]))"


section \<open>MediaWikiSectionsParser\<close>

record parser =
  tableOfContents :: string
  previousLevel :: int

definition newParser :: parser where
  "newParser = \<lparr>tableOfContents = [], previousLevel = 0\<rparr>"

text \<open>
  \<open>closeListTags\<close>: the loop of the source runs \<open>previousLevel - currentLevel\<close> times
  (not at all when that is negative).
\<close>

function closeLoop :: "int \<Rightarrow> parser \<Rightarrow> parser" where
  "closeLoop currentLevel p =
     (if currentLevel < previousLevel p
      then closeLoop currentLevel
             (p\<lparr>tableOfContents := tableOfContents p @ ''</ul>\<newline></li>\<newline>'',
                previousLevel := previousLevel p - 1\<rparr>)
      else p)"
  by pat_completeness auto
termination
  by (relation "measure (\<lambda>(currentLevel, p). nat (previousLevel p - currentLevel))") auto

declare closeLoop.simps [simp del]

definition closeListTags :: "int \<Rightarrow> parser \<Rightarrow> parser" where
  "closeListTags currentLevel p =
     closeLoop currentLevel (p\<lparr>tableOfContents := tableOfContents p @ ''</li>\<newline>''\<rparr>)"

text \<open>
  \<open>addListLevel\<close>: \<open>None\<close> is the \<open>false\<close> of the source (nothing was added), \<open>Some\<close>
  the parser after a \<open>true\<close>.
\<close>

definition addListLevel :: "string \<Rightarrow> parser \<Rightarrow> parser option" where
  "addListLevel levelString p =
     (case toInt levelString of
        None \<Rightarrow> None
      | Some level \<Rightarrow>
          if level \<le> 0 then None
          else if level > previousLevel p + 1 then None
          else
            let p1 = (if level = previousLevel p + 1
                      then p\<lparr>tableOfContents := tableOfContents p @ ''\<newline><ul>\<newline>'',
                             previousLevel := level\<rparr>
                      else closeListTags level p)
            in Some (p1\<lparr>tableOfContents := tableOfContents p1 @ ''<li>''\<rparr>))"

definition tocLink :: "node \<Rightarrow> string" where
  \<open>tocLink el =
     ''<a href='#'' @ attribute el ''linkAnchor'' @ '''>''
     @ attribute el ''number'' @ '' '' @ attribute el ''line'' @ ''</a>''\<close>

text \<open>
  The do-while loop of \<open>generateTableOfContents\<close> over the \<open>s\<close> elements.  It yields the
  parser at its end and tells whether it ran through: it stops, with the parser as it
  is then, as soon as \<open>addListLevel\<close> refuses an element.
\<close>

fun tocLoop :: "node list \<Rightarrow> parser \<Rightarrow> bool \<times> parser" where
  "tocLoop [] p = (True, p)"
| "tocLoop (el # els) p =
     (case addListLevel (attribute el ''toclevel'') p of
        None \<Rightarrow> (False, p)
      | Some p1 \<Rightarrow> tocLoop els (p1\<lparr>tableOfContents := tableOfContents p1 @ tocLink el\<rparr>))"

definition tocHeader :: string where
  \<open>tocHeader =
     ''<div id='toc' class='toc' role='navigation' aria-labelledby='mw-toc-heading'>''
     @ ''<div class='toctitle'><h2 id='mw-toc-heading'>Contents</h2></div>''\<close>

definition generateTableOfContents :: "node \<Rightarrow> parser \<Rightarrow> parser" where
  "generateTableOfContents sectionsElement p =
     (case childElements sectionsElement ''s'' of
        [] \<Rightarrow> p
      | el # els \<Rightarrow>
          (case tocLoop (el # els) (p\<lparr>tableOfContents := tocHeader\<rparr>) of
             (ranThrough, p1) \<Rightarrow>
               if \<not> ranThrough then p1\<lparr>tableOfContents := []\<rparr>
               else
                 let p2 = closeListTags 1 p1
                 in p2\<lparr>tableOfContents := tableOfContents p2 @ ''</ul>\<newline></div>''\<rparr>))"

definition emptyTocIndicator :: string where
  \<open>emptyTocIndicator = ''<meta property="mw:PageProp/toc" />''\<close>

definition generateTableOfContentsIfEmpty :: "node \<Rightarrow> string \<Rightarrow> string" where
  "generateTableOfContentsIfEmpty parseNode articleString =
     (let emptyTocPos = indexOf articleString emptyTocIndicator in
      if emptyTocPos = - 1 then articleString
      else
        (case firstChildElement parseNode ''sections'' of
           None \<Rightarrow> articleString
         | Some sectionsElement \<Rightarrow>
             replaceAt articleString (nat emptyTocPos) (length emptyTocIndicator)
               (tableOfContents (generateTableOfContents sectionsElement newParser))))"


section \<open>Regular expressions: the part of QRegularExpression that mediawiki.cc uses\<close>

text \<open>
  The patterns of the program use single characters and character classes,
  concatenation, alternation, greedy and lazy repetition and capturing groups.
  \<open>rxm r st\<close> lists the ways in which \<open>r\<close> matches at the front of the text that is
  left, in the order in which a backtracking matcher tries them: the first way that lets
  the rest of the pattern match is the match.  A state holds the number of code units
  consumed so far, the text that is left, and the captured groups (the latest first).
\<close>

datatype rx =
    Atom "char \<Rightarrow> bool"
  | Eps
  | Cat rx rx
  | Alt rx rx
  | Star rx
  | LazyStar rx
  | Grp nat rx

type_synonym mstate = "nat \<times> string \<times> (nat \<times> string) list"

fun starGreedy :: "(mstate \<Rightarrow> mstate list) \<Rightarrow> nat \<Rightarrow> mstate \<Rightarrow> mstate list" where
  "starGreedy f 0 st = [st]"
| "starGreedy f (Suc n) st =
     concat (map (starGreedy f n) (filter (\<lambda>st'. fst st < fst st') (f st))) @ [st]"

fun starLazy :: "(mstate \<Rightarrow> mstate list) \<Rightarrow> nat \<Rightarrow> mstate \<Rightarrow> mstate list" where
  "starLazy f 0 st = [st]"
| "starLazy f (Suc n) st =
     st # concat (map (starLazy f n) (filter (\<lambda>st'. fst st < fst st') (f st)))"

primrec rxm :: "rx \<Rightarrow> mstate \<Rightarrow> mstate list" where
  "rxm (Atom p) st =
     (case fst (snd st) of
        [] \<Rightarrow> []
      | c # cs \<Rightarrow> if p c then [(Suc (fst st), cs, snd (snd st))] else [])"
| "rxm Eps st = [st]"
| "rxm (Cat a b) st = concat (map (rxm b) (rxm a st))"
| "rxm (Alt a b) st = rxm a st @ rxm b st"
| "rxm (Star a) st = starGreedy (rxm a) (length (fst (snd st))) st"
| "rxm (LazyStar a) st = starLazy (rxm a) (length (fst (snd st))) st"
| "rxm (Grp n a) st =
     map (\<lambda>st'. (fst st', fst (snd st'),
                 (n, take (fst st' - fst st) (fst (snd st))) # snd (snd st')))
       (rxm a st)"

text \<open>
  A match as QRegularExpressionMatch shows it: \<open>capturedStart()\<close>, \<open>capturedEnd()\<close> and
  the captured texts, \<open>captured(0)\<close> being the whole match.
\<close>

record rmatch =
  capturedStart :: nat
  capturedEnd :: nat
  groups :: "(nat \<times> string) list"

definition captured :: "rmatch \<Rightarrow> nat \<Rightarrow> string" where
  "captured m n = (case map_of (groups m) n of None \<Rightarrow> [] | Some t \<Rightarrow> t)"

definition matchAt :: "rx \<Rightarrow> string \<Rightarrow> nat \<Rightarrow> rmatch option" where
  "matchAt r s off =
     (case rxm r (0, s, []) of
        [] \<Rightarrow> None
      | st # _ \<Rightarrow>
          Some \<lparr>capturedStart = off, capturedEnd = off + fst st,
                groups = (0, take (fst st) s) # snd (snd st)\<rparr>)"

text \<open>
  \<open>globalMatchFrom r s off\<close>: the matches of \<open>globalMatch\<close> in the text \<open>s\<close> that starts
  at position \<open>off\<close> of the subject, from left to right; the search goes on where the
  last match ended (one unit further after an empty match).
\<close>

fun globalMatchFrom :: "rx \<Rightarrow> string \<Rightarrow> nat \<Rightarrow> rmatch list" where
  "globalMatchFrom r [] off = (case matchAt r [] off of None \<Rightarrow> [] | Some m \<Rightarrow> [m])"
| "globalMatchFrom r (c # cs) off =
     (case matchAt r (c # cs) off of
        None \<Rightarrow> globalMatchFrom r cs (Suc off)
      | Some m \<Rightarrow>
          m # globalMatchFrom r (drop (capturedEnd m - off - 1) cs)
                (off + max 1 (capturedEnd m - off)))"

definition globalMatch :: "rx \<Rightarrow> string \<Rightarrow> rmatch list" where
  "globalMatch r s = globalMatchFrom r s 0"

text \<open>\<open>QRegularExpression::match\<close>: the first match, if any.\<close>

fun firstMatchFrom :: "rx \<Rightarrow> string \<Rightarrow> nat \<Rightarrow> rmatch option" where
  "firstMatchFrom r [] off = matchAt r [] off"
| "firstMatchFrom r (c # cs) off =
     (case matchAt r (c # cs) off of
        None \<Rightarrow> firstMatchFrom r cs (Suc off)
      | Some m \<Rightarrow> Some m)"

definition firstMatch :: "rx \<Rightarrow> string \<Rightarrow> rmatch option" where
  "firstMatch r s = firstMatchFrom r s 0"

subsection \<open>Building patterns\<close>

definition lit :: "char \<Rightarrow> rx" where
  "lit c = Atom (\<lambda>x. x = c)"

definition strRx :: "string \<Rightarrow> rx" where
  "strRx s = foldr (\<lambda>c r. Cat (lit c) r) s Eps"

definition toLower :: "char \<Rightarrow> char" where
  "toLower c =
     (case map_of (zip ''ABCDEFGHIJKLMNOPQRSTUVWXYZ'' ''abcdefghijklmnopqrstuvwxyz'') c of
        None \<Rightarrow> c
      | Some l \<Rightarrow> l)"

text \<open>A literal under CaseInsensitiveOption.\<close>

definition liti :: "char \<Rightarrow> rx" where
  "liti c = Atom (\<lambda>x. toLower x = toLower c)"

definition striRx :: "string \<Rightarrow> rx" where
  "striRx s = foldr (\<lambda>c r. Cat (liti c) r) s Eps"

definition anyOf :: "string \<Rightarrow> rx" where
  "anyOf cs = Atom (\<lambda>x. x \<in> set cs)"

definition noneOf :: "string \<Rightarrow> rx" where
  "noneOf cs = Atom (\<lambda>x. x \<notin> set cs)"

text \<open>\<open>\s\<close>, \<open>\w\<close>, the dot, and the dot under DotMatchesEverythingOption.\<close>

definition spaceRx :: rx where
  "spaceRx = Atom isSpace"

definition wordRx :: rx where
  "wordRx = anyOf ''abcdefghijklmnopqrstuvwxyzABCDEFGHIJKLMNOPQRSTUVWXYZ0123456789_''"

definition dotRx :: rx where
  "dotRx = noneOf ''\<newline>''"

definition anyRx :: rx where
  "anyRx = Atom (\<lambda>x. True)"

definition plusRx :: "rx \<Rightarrow> rx" where
  "plusRx r = Cat r (Star r)"

definition lazyPlusRx :: "rx \<Rightarrow> rx" where
  "lazyPlusRx r = Cat r (LazyStar r)"

definition cats :: "rx list \<Rightarrow> rx" where
  "cats rs = foldr Cat rs Eps"

subsection \<open>Replacing the matches\<close>

text \<open>
  The three rewriting loops of \<open>requestFinished\<close> have one shape: the text between the
  matches is copied, each match is replaced by a text computed from it, and the subject
  is only assigned when \<open>pos\<close> is not 0 at the end.  \<open>rewriteLoop\<close> is the loop
  (\<open>articleNewString\<close> and \<open>pos\<close> are its state), \<open>rewriteMatches\<close> the loop with the
  assignment after it.
\<close>

fun rewriteLoop :: "(rmatch \<Rightarrow> string) \<Rightarrow> string \<Rightarrow> rmatch list \<Rightarrow> string \<times> nat \<Rightarrow> string \<times> nat" where
  "rewriteLoop f articleString [] acc = acc"
| "rewriteLoop f articleString (m # ms) (articleNewString, pos) =
     rewriteLoop f articleString ms
       (articleNewString @ mid articleString pos (capturedStart m - pos) @ f m, capturedEnd m)"

definition rewriteMatches :: "(rmatch \<Rightarrow> string) \<Rightarrow> rx \<Rightarrow> string \<Rightarrow> string" where
  "rewriteMatches f r articleString =
     (case rewriteLoop f articleString (globalMatch r articleString) ([], 0) of
        (articleNewString, pos) \<Rightarrow>
          if pos \<noteq> 0 then articleNewString @ drop pos articleString else articleString)"

text \<open>
  QString::replace(QRegularExpression, after): every match is replaced by \<open>after\<close>, in
  which a backslash followed by the number of a group of the pattern stands for the text
  that group captured (no pattern of the program has ten groups, so the number is one
  digit).
\<close>

datatype titem = TLit char | TRef nat

definition groupDigit :: "char \<Rightarrow> nat option" where
  "groupDigit c = map_of (zip ''123456789'' [1, 2, 3, 4, 5, 6, 7, 8, 9]) c"

fun parseTemplate :: "nat \<Rightarrow> string \<Rightarrow> titem list" where
  "parseTemplate numCaptures (c # d # cs) =
     (if c = CHR 0x5C then
        (case groupDigit d of
           None \<Rightarrow> TLit c # parseTemplate numCaptures (d # cs)
         | Some no \<Rightarrow>
             if no \<le> numCaptures then TRef no # parseTemplate numCaptures cs
             else TLit c # parseTemplate numCaptures (d # cs))
      else TLit c # parseTemplate numCaptures (d # cs))"
| "parseTemplate numCaptures [c] = [TLit c]"
| "parseTemplate numCaptures [] = []"

fun expandItem :: "rmatch \<Rightarrow> titem \<Rightarrow> string" where
  "expandItem m (TLit c) = [c]"
| "expandItem m (TRef no) = captured m no"

definition expand :: "nat \<Rightarrow> string \<Rightarrow> rmatch \<Rightarrow> string" where
  "expand numCaptures after m = concat (map (expandItem m) (parseTemplate numCaptures after))"

fun spliceFrom :: "(rmatch \<Rightarrow> string) \<Rightarrow> string \<Rightarrow> rmatch list \<Rightarrow> nat \<Rightarrow> string" where
  "spliceFrom f s [] pos = drop pos s"
| "spliceFrom f s (m # ms) pos =
     mid s pos (capturedStart m - pos) @ f m @ spliceFrom f s ms (capturedEnd m)"

definition replaceRx :: "rx \<Rightarrow> nat \<Rightarrow> string \<Rightarrow> string \<Rightarrow> string" where
  "replaceRx r numCaptures after s =
     spliceFrom (expand numCaptures after) s (globalMatch r s) 0"


section \<open>The dictionary and its URL\<close>

text \<open>
  What an article request reads from its dictionary: the endpoint \<open>url\<close>, the
  dictionary id and the direction of the target language.  \<open>addAudioLink\<close> is the audio
  registrar of the application (audiolink.hh), which gets a quoted URL and the
  dictionary id and returns the markup to put in front of the link; it is a parameter
  of the model.
\<close>

record dictionary =
  url :: string
  getId :: string
  isToLanguageRTL :: bool
  addAudioLink :: "string \<Rightarrow> string \<Rightarrow> string"

text \<open>
  QUrl, for an endpoint written as \<open>scheme://authority/path?query#fragment\<close> (the last
  three optional): the components, \<open>setPath\<close>, \<open>scheme()\<close> and \<open>toString()\<close>.
\<close>

record qurl =
  scheme :: string
  authority :: string
  path :: string
  query :: "string option"
  fragment :: "string option"

definition QUrl :: "string \<Rightarrow> qurl" where
  "QUrl u =
     (let sch = takeWhile (\<lambda>c. c \<noteq> CHR '':'') u;
          r1 = drop (length sch + 3) u;
          auth = takeWhile (\<lambda>c. c \<notin> set ''/?#'') r1;
          r2 = drop (length auth) r1;
          pth = takeWhile (\<lambda>c. c \<notin> set ''?#'') r2;
          r3 = drop (length pth) r2;
          qry = (if r3 \<noteq> [] \<and> hd r3 = CHR ''?''
                 then Some (takeWhile (\<lambda>c. c \<noteq> CHR ''#'') (tl r3)) else None);
          r4 = (case qry of None \<Rightarrow> r3 | Some q \<Rightarrow> drop (Suc (length q)) r3);
          frg = (if r4 \<noteq> [] then Some (tl r4) else None)
      in \<lparr>scheme = sch, authority = auth, path = pth, query = qry, fragment = frg\<rparr>)"

definition toString :: "qurl \<Rightarrow> string" where
  "toString u =
     scheme u @ ''://'' @ authority u @ path u
     @ (case query u of None \<Rightarrow> [] | Some q \<Rightarrow> ''?'' @ q)
     @ (case fragment u of None \<Rightarrow> [] | Some f \<Rightarrow> ''#'' @ f)"

text \<open>\<open>QUrl wikiUrl( url ); wikiUrl.setPath( "/" );\<close>\<close>

definition wikiUrl :: "dictionary \<Rightarrow> qurl" where
  "wikiUrl d = (QUrl (url d))\<lparr>path := ''/''\<rparr>"


section \<open>The passes of the content transformation\<close>

subsection \<open>The patterns, as the source writes them\<close>

text \<open>\<^verbatim>\<open><a\s+href="/([^"]+)"\<close>\<close>

definition regLinks :: rx where
  \<open>regLinks = cats [strRx ''<a'', plusRx spaceRx, strRx ''href="/'', Grp 1 (plusRx (noneOf ''"'')),
                    lit (CHR ''"'')]\<close>

text \<open>\<^verbatim>\<open><a\shref="(/([\w]*/)*index.php\?)\<close> (the dot before php is not escaped)\<close>

definition regIndexPhp :: rx where
  \<open>regIndexPhp =
     cats [strRx ''<a'', spaceRx, strRx ''href="'',
           Grp 1 (cats [lit (CHR ''/''), Star (Grp 2 (Cat (Star wordRx) (lit (CHR ''/'')))),
                        strRx ''index'', dotRx, strRx ''php'', lit (CHR ''?'')])]\<close>

text \<open>\<^verbatim>\<open><audio\s.+?</audio>\<close>, case insensitive, the dot matching everything\<close>

definition reg1 :: rx where
  \<open>reg1 = cats [striRx ''<audio'', spaceRx, lazyPlusRx anyRx, striRx ''</audio>'']\<close>

text \<open>\<^verbatim>\<open><source\s+src="([^"]+)\<close>, case insensitive\<close>

definition reg2 :: rx where
  \<open>reg2 = cats [striRx ''<source'', plusRx spaceRx, striRx ''src="'', Grp 1 (plusRx (noneOf ''"''))]\<close>

text \<open>\<^verbatim>\<open><a\s+href="(//upload\.wikimedia\.org/wikipedia/[^"'&]*\.og[ga](?:\.mp3|))"\<close>\<close>

definition regAudioUrl :: rx where
  \<open>regAudioUrl =
     cats [strRx ''<a'', plusRx spaceRx, strRx ''href="'',
           Grp 1 (cats [strRx ''//upload.wikimedia.org/wikipedia/'', Star (noneOf ''"'&''),
                        strRx ''.og'', anyOf ''ga'', Alt (strRx ''.mp3'') Eps]),
           lit (CHR ''"'')]\<close>

text \<open>\<^verbatim>\<open><a\s+href="[^/:">#]+\<close>\<close>

definition rxLink :: rx where
  \<open>rxLink = cats [strRx ''<a'', plusRx spaceRx, strRx ''href="'', plusRx (noneOf ''/:">#'')]\<close>

text \<open>\<^verbatim>\<open><a\s+href="([^:/"]*file%3A[^/"]+")\<close>, case insensitive\<close>

definition regFile :: rx where
  \<open>regFile =
     cats [striRx ''<a'', plusRx spaceRx, striRx ''href="'',
           Grp 1 (cats [Star (noneOf '':/"''), striRx ''file%3A'', plusRx (noneOf ''/"''),
                        lit (CHR ''"'')])]\<close>

text \<open>\<^verbatim>\<open> srcset\s*=\s*"/[^"]+"\<close>\<close>

definition regSrcset :: rx where
  \<open>regSrcset =
     cats [strRx '' srcset'', Star spaceRx, strRx ''='', Star spaceRx, strRx ''"/'',
           plusRx (noneOf ''"''), lit (CHR ''"'')]\<close>

subsection \<open>The passes, in the order of the source\<close>

text \<open>Replace all ":" in links, remove the '#' part in links to other articles.\<close>

definition newLink :: "rmatch \<Rightarrow> string" where
  \<open>newLink m =
     (let link = captured m 1 in
      if indexOf link ''://'' \<ge> 0 then captured m 0
      else
        let link1 = (if indexOf link '':'' \<ge> 0 then replaceAll '':'' ''%3A'' link else link);
            n = indexOfAt link1 ''#'' 1;
            link2 = (if n > 0
                     then take (nat n) link1 @ ''?gdanchor=''
                          @ replaceAll ''_'' ''%5F'' (drop (nat n + 1) link1)
                     else link1)
        in ''<a href="/'' @ link2 @ ''"'')\<close>

definition linkRewrite :: "string \<Rightarrow> string" where
  "linkRewrite articleString = rewriteMatches newLink regLinks articleString"

text \<open>Update any special index.php pages to be absolute.\<close>

definition indexPhpAbsolute :: "dictionary \<Rightarrow> string \<Rightarrow> string" where
  \<open>indexPhpAbsolute d articleString =
     replaceRx regIndexPhp 2 (''<a href="'' @ toString (wikiUrl d) @ [CHR 0x5C, CHR ''1''])
       articleString\<close>

text \<open>The audio tag.\<close>

definition audioIcon :: "rmatch \<Rightarrow> string" where
  \<open>audioIcon m =
     (case firstMatch reg2 (captured m 0) of
        Some m2 \<Rightarrow>
          ''<a href="'' @ captured m2 1
          @ ''"><img src="qrcx://localhost/icons/playsound.png" border="0" align="absmiddle" alt="Play"/></a>''
      | None \<Rightarrow> captured m 0)\<close>

definition audioSubstitution :: "string \<Rightarrow> string" where
  "audioSubstitution articleString = rewriteMatches audioIcon reg1 articleString"

text \<open>The audio url.\<close>

definition audioUrlFix :: "dictionary \<Rightarrow> string \<Rightarrow> string" where
  \<open>audioUrlFix d articleString =
     replaceRx regAudioUrl 1
       (addAudioLink d (''"'' @ scheme (wikiUrl d) @ '':'' @ [CHR 0x5C, CHR ''1''] @ ''"'') (getId d)
        @ ''<a href="'' @ scheme (wikiUrl d) @ '':'' @ [CHR 0x5C, CHR ''1''] @ ''"'')
       articleString\<close>

text \<open>Add the url scheme to image source urls.\<close>

definition srcSchemeCompletion :: "dictionary \<Rightarrow> string \<Rightarrow> string" where
  \<open>srcSchemeCompletion d articleString =
     replaceAll '' src="//'' ('' src="'' @ scheme (wikiUrl d) @ ''://'') articleString\<close>

text \<open>Fix \<open>src="/foo/bar/Baz.png"\<close>.\<close>

definition srcRootCompletion :: "dictionary \<Rightarrow> string \<Rightarrow> string" where
  \<open>srcRootCompletion d articleString =
     replaceAll ''src="/'' (''src="'' @ toString (wikiUrl d)) articleString\<close>

text \<open>Remove the /wiki/ prefix from links.\<close>

definition wikiPathStrip :: "string \<Rightarrow> string" where
  \<open>wikiPathStrip articleString = replaceAll ''<a href="/wiki/'' ''<a href="'' articleString\<close>

text \<open>In those strings, change any underscores to spaces.\<close>

function underscoreLoop :: "nat \<Rightarrow> nat \<Rightarrow> string \<Rightarrow> string" where
  "underscoreLoop i e articleString =
     (if i < e
      then underscoreLoop (i + 1) e
             (if i < length articleString \<and> articleString ! i = CHR ''_''
              then articleString[i := CHR '' ''] else articleString)
      else articleString)"
  by pat_completeness auto
termination
  by (relation "measure (\<lambda>(i, e, articleString). e - i)") auto

declare underscoreLoop.simps [simp del]

definition underscoreNormalization :: "string \<Rightarrow> string" where
  "underscoreNormalization articleString =
     foldl (\<lambda>a m. underscoreLoop (capturedStart m + 9) (capturedEnd m) a) articleString
       (globalMatch rxLink articleString)"

text \<open>Fix the file: url.\<close>

definition fileLinkRewrite :: "dictionary \<Rightarrow> string \<Rightarrow> string" where
  \<open>fileLinkRewrite d articleString =
     replaceRx regFile 1 (''<a href="'' @ url d @ ''/index.php?title='' @ [CHR 0x5C, CHR ''1''])
       articleString\<close>

text \<open>Add the url scheme to other urls like "//xxx".\<close>

definition hrefSchemeCompletion :: "dictionary \<Rightarrow> string \<Rightarrow> string" where
  \<open>hrefSchemeCompletion d articleString =
     replaceAll '' href="//'' ('' href="'' @ scheme (wikiUrl d) @ ''://'') articleString\<close>

text \<open>Add the url scheme to urls in embedded css, like \<open>url("//upload.wikimedia.org/...")\<close>.\<close>

definition cssUrlSchemeCompletion :: "dictionary \<Rightarrow> string \<Rightarrow> string" where
  \<open>cssUrlSchemeCompletion d articleString =
     replaceAll ''url("//'' (''url("'' @ scheme (wikiUrl d) @ ''://'') articleString\<close>

text \<open>Fix the urls in the "srcset" attribute.\<close>

definition newSrcset :: "dictionary \<Rightarrow> rmatch \<Rightarrow> string" where
  \<open>newSrcset d m = replaceAll ''//'' (scheme (wikiUrl d) @ ''://'') (captured m 0)\<close>

definition srcsetFixup :: "dictionary \<Rightarrow> string \<Rightarrow> string" where
  "srcsetFixup d articleString = rewriteMatches (newSrcset d) regSrcset articleString"

text \<open>
  The whole transformation of the text of a page: the passes above, the table of
  contents, and the wrapping \<open>div\<close>; the result is what is appended to \<open>data\<close>.
\<close>

definition rewritePasses :: "dictionary \<Rightarrow> string \<Rightarrow> string" where
  "rewritePasses d articleString =
     srcsetFixup d (cssUrlSchemeCompletion d (hrefSchemeCompletion d (fileLinkRewrite d
       (underscoreNormalization (wikiPathStrip (srcRootCompletion d (srcSchemeCompletion d
         (audioUrlFix d (audioSubstitution (indexPhpAbsolute d
           (linkRewrite articleString)))))))))))"

definition articleBody :: "dictionary \<Rightarrow> node \<Rightarrow> string \<Rightarrow> string" where
  \<open>articleBody d parseNode articleString =
     (if isToLanguageRTL d then ''<div class="mwiki" dir="rtl">'' else ''<div class="mwiki">'')
     @ generateTableOfContentsIfEmpty parseNode (rewritePasses d articleString)
     @ ''</div>''\<close>


section \<open>Requests\<close>

subsection \<open>The base classes of the requests\<close>

text \<open>
  Modelled from the spec: the classes \<open>Dictionary::Request\<close>, \<open>DataRequest\<close> and
  \<open>WordSearchRequest\<close> of dictionary.hh are missing.  The spec gives a request a terminal
  "finished" state with a completion signal, a signal of incremental progress and a last
  error string; a data request has the article buffer and its "has any data" flag, a
  word search request its list of titles.  The two signals are counted, so that one can
  say how often each has fired.
\<close>

record request =
  isFinishedFlag :: bool
  errorString :: string
  finishedSignals :: nat
  updatedSignals :: nat

record dataRequest = request +
  hasAnyData :: bool
  data :: string

record wordSearchRequest = request +
  matches :: "string list"

text \<open>
  Modelled from the spec: \<open>Request::isFinished\<close> of dictionary.hh is missing.  It tells
  whether the request has reached its terminal state.
\<close>

definition isFinished :: "'a request_scheme \<Rightarrow> bool" where
  "isFinished rq = isFinishedFlag rq"

text \<open>
  Modelled from the spec: \<open>Request::finish\<close> of dictionary.hh is missing.  It sets the
  terminal flag and fires the completion signal; the spec has the signal fire exactly
  once, so a request that is finished already is left as it is.
\<close>

definition finish :: "'a request_scheme \<Rightarrow> 'a request_scheme" where
  "finish rq =
     (if isFinishedFlag rq then rq
      else rq\<lparr>isFinishedFlag := True, finishedSignals := Suc (finishedSignals rq)\<rparr>)"

text \<open>
  Modelled from the spec: \<open>Request::update\<close> of dictionary.hh is missing.  It signals
  incremental progress.
\<close>

definition update :: "'a request_scheme \<Rightarrow> 'a request_scheme" where
  "update rq = rq\<lparr>updatedSignals := Suc (updatedSignals rq)\<rparr>"

text \<open>
  Modelled from the spec: \<open>Request::setErrorString\<close> of dictionary.hh is missing.  The
  error state is the last error string; a failing query overwrites it.
\<close>

definition setErrorString :: "string \<Rightarrow> 'a request_scheme \<Rightarrow> 'a request_scheme" where
  "setErrorString str rq = rq\<lparr>errorString := str\<rparr>"

text \<open>
  Modelled from the spec: \<open>DataRequestInstant\<close> of dictionary.hh is missing.  It is the
  immediately finished, empty result; its argument is the "has any data" flag.
\<close>

definition DataRequestInstant :: "bool \<Rightarrow> dataRequest" where
  "DataRequestInstant succeeded =
     finish \<lparr>isFinishedFlag = False, errorString = [], finishedSignals = 0, updatedSignals = 0,
             hasAnyData = succeeded, data = []\<rparr>"

text \<open>
  Modelled from the spec: \<open>WordSearchRequestInstant\<close> of dictionary.hh is missing.  It is
  the immediately finished result without titles.
\<close>

definition WordSearchRequestInstant :: wordSearchRequest where
  "WordSearchRequestInstant =
     finish \<lparr>isFinishedFlag = False, errorString = [], finishedSignals = 0, updatedSignals = 0,
             matches = []\<rparr>"

subsection \<open>The network\<close>

text \<open>
  A QNetworkAccessManager is the list of the requests it was asked to get; the
  QNetworkReply pointer that \<open>get\<close> returns is the position of the request in that list,
  so that two calls never return the same one.  A request is the URL the source writes
  down, the query item added to it and the transfer timeout in milliseconds, if set.
\<close>

type_synonym handle = nat

record networkRequest =
  reqUrl :: string
  queryItem :: "string \<times> string"
  transferTimeout :: "nat option"

type_synonym networkAccessManager = "networkRequest list"

definition get :: "networkAccessManager \<Rightarrow> networkRequest \<Rightarrow> handle \<times> networkAccessManager" where
  "get mgr req = (length mgr, mgr @ [req])"

text \<open>
  What a finished reply holds: a transport error with its text, or a body that
  \<open>QDomDocument::setContent\<close> rejects (with message, line and column), or a body that
  it parses into a document, given by the children of the document node.
\<close>

datatype reply =
    NetworkError string
  | XmlError string int int
  | Document "node list"

subsection \<open>MediaWikiWordSearchRequest and prefixMatch\<close>

text \<open>
  Of the prefix search the constructor is modelled, which issues the network operation;
  what it does to the allow list of the application is left out.
\<close>

record mediaWikiWordSearchRequest = wordSearchRequest +
  netReply :: "handle option"
  isCancelling :: bool

text \<open>The network request that the constructor builds for the prefix.\<close>

definition searchQuery :: "string \<Rightarrow> string \<Rightarrow> networkRequest" where
  "searchQuery url' str =
     \<lparr>reqUrl = url' @ ''/api.php?action=query&list=allpages&aplimit=40&format=xml'',
      queryItem = (''apfrom'', replaceAll ''+'' ''%2B'' str),
      transferTimeout = None\<rparr>"

definition MediaWikiWordSearchRequest ::
  "string \<Rightarrow> string \<Rightarrow> networkAccessManager \<Rightarrow> mediaWikiWordSearchRequest \<times> networkAccessManager" where
  "MediaWikiWordSearchRequest str url' mgr =
     (case get mgr (searchQuery url' str) of
        (r, mgr') \<Rightarrow>
          (\<lparr>isFinishedFlag = False, errorString = [], finishedSignals = 0, updatedSignals = 0,
            matches = [], netReply = Some r, isCancelling = False\<rparr>, mgr'))"

datatype wordSearchRequestPtr =
    InstantSearch wordSearchRequest
  | MediaWikiSearch mediaWikiWordSearchRequest

definition prefixMatch ::
  "dictionary \<Rightarrow> string \<Rightarrow> networkAccessManager \<Rightarrow> wordSearchRequestPtr \<times> networkAccessManager" where
  "prefixMatch d word mgr =
     (if length word > 80 then (InstantSearch WordSearchRequestInstant, mgr)
      else
        (case MediaWikiWordSearchRequest word (url d) mgr of
           (rq, mgr') \<Rightarrow> (MediaWikiSearch rq, mgr')))"

subsection \<open>MediaWikiArticleRequest\<close>

record articleRequest = dataRequest +
  netReplies :: "(handle \<times> bool) list"
  addedPageIds :: "int list"

definition cancel :: "articleRequest \<Rightarrow> articleRequest" where
  "cancel rq = finish rq"

text \<open>The network request that \<open>addQuery\<close> builds for a term.\<close>

definition articleQuery :: "dictionary \<Rightarrow> string \<Rightarrow> networkRequest" where
  "articleQuery d str =
     \<lparr>reqUrl = url d @ ''/api.php?action=parse&prop=text|revid|sections&format=xml&redirects'',
      queryItem = (''page'', replaceAll ''+'' ''%2B'' str),
      transferTimeout = Some 3000\<rparr>"

definition addQuery ::
  "dictionary \<Rightarrow> string \<Rightarrow> articleRequest \<times> networkAccessManager
     \<Rightarrow> articleRequest \<times> networkAccessManager" where
  "addQuery d str st =
     (case st of
        (rq, mgr) \<Rightarrow>
          (case get mgr (articleQuery d str) of
             (r, mgr') \<Rightarrow> (rq\<lparr>netReplies := netReplies rq @ [(r, False)]\<rparr>, mgr')))"

text \<open>The members of a request before the body of the constructor runs.\<close>

definition newArticleRequest :: articleRequest where
  "newArticleRequest =
     \<lparr>isFinishedFlag = False, errorString = [], finishedSignals = 0, updatedSignals = 0,
      hasAnyData = False, data = [], netReplies = [], addedPageIds = []\<rparr>"

definition MediaWikiArticleRequest ::
  "string \<Rightarrow> string list \<Rightarrow> dictionary \<Rightarrow> networkAccessManager
     \<Rightarrow> articleRequest \<times> networkAccessManager" where
  "MediaWikiArticleRequest str alts d mgr =
     foldl (\<lambda>st alt. addQuery d alt st) (addQuery d str (newArticleRequest, mgr)) alts"

text \<open>The text \<open>tr( "XML parse error: %1 at %2,%3" )\<close> with its three arguments.\<close>

fun showNat :: "nat \<Rightarrow> string" where
  "showNat n =
     (if n < 10 then [''0123456789'' ! n]
      else showNat (n div 10) @ [''0123456789'' ! (n mod 10)])"

declare showNat.simps [simp del]

definition showInt :: "int \<Rightarrow> string" where
  "showInt i = (if i < 0 then ''-'' @ showNat (nat (- i)) else showNat (nat i))"

definition xmlParseError :: "string \<Rightarrow> int \<Rightarrow> int \<Rightarrow> string" where
  "xmlParseError errorStr errorLine errorColumn =
     ''XML parse error: '' @ errorStr @ '' at '' @ showInt errorLine @ '','' @ showInt errorColumn"

text \<open>
  The body of the draining loop of \<open>requestFinished\<close>, for the reply at the front of
  the queue: the request and the local flag \<open>updated\<close> before and after.
\<close>

definition processReply ::
  "dictionary \<Rightarrow> reply \<Rightarrow> articleRequest \<times> bool \<Rightarrow> articleRequest \<times> bool" where
  "processReply d r st =
     (case st of
        (rq, updated) \<Rightarrow>
          (case r of
             NetworkError errorString' \<Rightarrow> (setErrorString errorString' rq, updated)
           | XmlError errorStr errorLine errorColumn \<Rightarrow>
               (setErrorString (xmlParseError errorStr errorLine errorColumn) rq, updated)
           | Document dd \<Rightarrow>
               (case namedItem (namedItemIn dd ''api'') ''parse'' of
                  None \<Rightarrow> (rq, updated)
                | Some parseNode \<Rightarrow>
                    if attribute parseNode ''revid'' \<noteq> ''0'' then
                      (case insert_SmallSet (toLongLong (attribute parseNode ''pageid''))
                              (addedPageIds rq) of
                         (inserted, elements) \<Rightarrow>
                           let rq1 = rq\<lparr>addedPageIds := elements\<rparr> in
                           if inserted then
                             (case namedItem (Some parseNode) ''text'' of
                                None \<Rightarrow> (rq1, updated)
                              | Some textNode \<Rightarrow>
                                  (rq1\<lparr>data := data rq1
                                            @ articleBody d parseNode (nodeText textNode),
                                        hasAnyData := True\<rparr>, True))
                           else (rq1, updated))
                    else (rq, updated))))"

text \<open>
  The loop itself: it runs while the queue is not empty and its front is marked as
  finished, and pops the front after each round.
\<close>

fun drain ::
  "dictionary \<Rightarrow> (handle \<Rightarrow> reply) \<Rightarrow> (handle \<times> bool) list \<Rightarrow> articleRequest \<times> bool
     \<Rightarrow> articleRequest \<times> bool" where
  "drain d net [] st = (case st of (rq, updated) \<Rightarrow> (rq\<lparr>netReplies := []\<rparr>, updated))"
| "drain d net (front # rest) st =
     (if snd front then drain d net rest (processReply d (net (fst front)) st)
      else (case st of (rq, updated) \<Rightarrow> (rq\<lparr>netReplies := front # rest\<rparr>, updated)))"

text \<open>The search for the reply in the queue; \<open>None\<close> when it is not there.\<close>

fun markFinished :: "handle \<Rightarrow> (handle \<times> bool) list \<Rightarrow> (handle \<times> bool) list option" where
  "markFinished r [] = None"
| "markFinished r (i # rest) =
     (if fst i = r then Some ((fst i, True) # rest)
      else map_option (\<lambda>rest'. i # rest') (markFinished r rest))"

text \<open>
  \<open>requestFinished\<close>; \<open>net\<close> tells what each reply of the manager holds when the request
  reads it.
\<close>

definition requestFinished ::
  "dictionary \<Rightarrow> (handle \<Rightarrow> reply) \<Rightarrow> handle \<Rightarrow> articleRequest \<Rightarrow> articleRequest" where
  "requestFinished d net r rq =
     (if isFinished rq then rq
      else
        (case markFinished r (netReplies rq) of
           None \<Rightarrow> rq
         | Some marked \<Rightarrow>
             (case drain d net marked (rq\<lparr>netReplies := marked\<rparr>, False) of
                (rq1, updated) \<Rightarrow>
                  if netReplies rq1 = [] then finish rq1
                  else if updated then update rq1
                  else rq1)))"

subsection \<open>getArticle\<close>

datatype dataRequestPtr =
    InstantData dataRequest
  | MediaWikiArticle articleRequest

definition getArticle ::
  "dictionary \<Rightarrow> string \<Rightarrow> string list \<Rightarrow> networkAccessManager
     \<Rightarrow> dataRequestPtr \<times> networkAccessManager" where
  "getArticle d word alts mgr =
     (if length word > 80 then (InstantData (DataRequestInstant False), mgr)
      else
        (case MediaWikiArticleRequest word alts d mgr of
           (rq, mgr') \<Rightarrow> (MediaWikiArticle rq, mgr')))"

subsection \<open>The life of an article request\<close>

text \<open>
  What can happen to a request after its construction: the manager reports that a
  reply has finished (any reply of the manager, also one of another request), or the
  owner cancels the request.
\<close>

datatype event = Finished handle | Cancel

fun step :: "dictionary \<Rightarrow> (handle \<Rightarrow> reply) \<Rightarrow> articleRequest \<Rightarrow> event \<Rightarrow> articleRequest" where
  "step d net rq (Finished r) = requestFinished d net r rq"
| "step d net rq Cancel = cancel rq"

definition run :: "dictionary \<Rightarrow> (handle \<Rightarrow> reply) \<Rightarrow> articleRequest \<Rightarrow> event list \<Rightarrow> articleRequest" where
  "run d net rq evs = foldl (step d net) rq evs"


section \<open>Notions used in the statements\<close>

subsection \<open>Replies and runs\<close>

text \<open>The replies of a list handled one after the other by the body of the draining loop.\<close>

definition processAll ::
  "dictionary \<Rightarrow> reply list \<Rightarrow> articleRequest \<times> bool \<Rightarrow> articleRequest \<times> bool" where
  "processAll d rs st = foldl (\<lambda>st r. processReply d r st) st rs"

text \<open>A dictionary and a reply document to run the program on.\<close>

definition enwiki :: dictionary where
  "enwiki = \<lparr>url = ''https://en.wikipedia.org/w'', getId = ''enwiki'', isToLanguageRTL = False,
             addAudioLink = (\<lambda>u i. ''<script>'' @ u @ ''</script>'')\<rparr>"

definition pageDocument :: "(string \<times> string) list \<Rightarrow> node list \<Rightarrow> node list" where
  "pageDocument attrs kids = [Element ''api'' [] [Element ''parse'' attrs kids]]"


text \<open>The page identity that a reply carries: the pageid of its api/parse node, as a number.\<close>

definition replyPageId :: "reply \<Rightarrow> int option" where
  "replyPageId r =
     (case r of
        Document dd \<Rightarrow>
          map_option (\<lambda>parseNode. toLongLong (attribute parseNode ''pageid''))
            (namedItem (namedItemIn dd ''api'') ''parse'')
      | NetworkError e \<Rightarrow> None
      | XmlError s l c \<Rightarrow> None)"

text \<open>The replies to two terms that redirect to the same page.\<close>

definition twoRedirects :: "reply list" where
  "twoRedirects =
     [Document (pageDocument [(''revid'', ''5''), (''pageid'', ''7'')]
                  [Element ''text'' [] [Text ''x'']]),
      Document (pageDocument [(''revid'', ''5''), (''pageid'', ''7'')]
                  [Element ''text'' [] [Text ''y'']])]"

text \<open>
  Two requests agree in what the draining loop reads and writes: the data, the added
  page ids, the "has any data" flag and the error string.
\<close>

definition sameContent :: "articleRequest \<Rightarrow> articleRequest \<Rightarrow> bool" where
  "sameContent rq rq' =
     (data rq = data rq' \<and> addedPageIds rq = addedPageIds rq'
      \<and> hasAnyData rq = hasAnyData rq' \<and> errorString rq = errorString rq')"

text \<open>A network in which every reply holds the same page.\<close>

definition sampleNet :: "handle \<Rightarrow> reply" where
  "sampleNet h =
     Document (pageDocument [(''revid'', ''5''), (''pageid'', ''7'')]
                 [Element ''text'' [] [Text ''x'']])"


text \<open>A network in which the reply with the handle \<open>h\<close> holds the page number \<open>h\<close>.\<close>

definition numberedNet :: "handle \<Rightarrow> reply" where
  "numberedNet h =
     Document (pageDocument [(''revid'', ''5''), (''pageid'', showNat h)]
                 [Element ''text'' [] [Text (showNat h)]])"

text \<open>A reply that failed: a transport error or a body that is not XML.\<close>

definition isFailure :: "reply \<Rightarrow> bool" where
  "isFailure r = (case r of NetworkError e \<Rightarrow> True | XmlError s l c \<Rightarrow> True | Document dd \<Rightarrow> False)"

text \<open>
  The error string after the failed replies of a list, when it was \<open>e\<close> before: that of
  the last failure, if there is one.
\<close>

fun errorAfter :: "string \<Rightarrow> reply list \<Rightarrow> string" where
  "errorAfter e [] = e"
| "errorAfter e (NetworkError e' # rs) = errorAfter e' rs"
| "errorAfter e (XmlError s l c # rs) = errorAfter (xmlParseError s l c) rs"
| "errorAfter e (Document dd # rs) = errorAfter e rs"

text \<open>A network with a transport error, a page, and a body that is not XML.\<close>

definition mixedNet :: "handle \<Rightarrow> reply" where
  "mixedNet h =
     (if h = 0 then NetworkError ''timeout''
      else if h = 1 then Document (pageDocument [(''revid'', ''5''), (''pageid'', ''7'')]
                                     [Element ''text'' [] [Text ''x'']])
      else XmlError ''bad'' 1 2)"

text \<open>A queue of three finished replies and one that is outstanding.\<close>

definition mixedQueue :: "(handle \<times> bool) list" where
  "mixedQueue = [(0, True), (1, True), (2, True), (3, False)]"

subsection \<open>The table of contents of the spec\<close>

text \<open>
  The table of contents as the spec describes it: a sequence of tags, opened and closed
  by the rules for the level of each section.
\<close>

datatype tocTag = OpenList | CloseList | OpenItem | CloseItem | Link node

fun renderTag :: "tocTag \<Rightarrow> string" where
  "renderTag OpenList = ''\<newline><ul>\<newline>''"
| "renderTag CloseList = ''</ul>\<newline>''"
| "renderTag OpenItem = ''<li>''"
| "renderTag CloseItem = ''</li>\<newline>''"
| "renderTag (Link el) = tocLink el"

definition renderTags :: "tocTag list \<Rightarrow> string" where
  "renderTags ts = concat (map renderTag ts)"

text \<open>
  The rules of the spec for a section of level \<open>level\<close> when the current level is
  \<open>current\<close>: one level deeper opens a new nested list and an item; the same level
  closes the previous item and opens a new one; a lower level closes items and lists
  down to that depth and opens a new item.
\<close>

definition sectionTags :: "int \<Rightarrow> int \<Rightarrow> tocTag list" where
  "sectionTags current level =
     (if level = current + 1 then [OpenList, OpenItem]
      else if level = current then [CloseItem, OpenItem]
      else CloseItem # concat (replicate (nat (current - level)) [CloseList, CloseItem])
           @ [OpenItem])"

text \<open>
  The whole list: the tags of each section followed by its link, and, after the last
  section, the closing of all levels that are still open.
\<close>

fun specToc :: "int \<Rightarrow> (int \<times> node) list \<Rightarrow> tocTag list" where
  "specToc current [] =
     CloseItem # concat (replicate (nat (current - 1)) [CloseList, CloseItem]) @ [CloseList]"
| "specToc current (s # rest) =
     sectionTags current (fst s) @ [Link (snd s)] @ specToc (fst s) rest"

text \<open>Levels that start at 1, stay positive and never go up by more than one step.\<close>

fun wellLevels :: "int \<Rightarrow> int list \<Rightarrow> bool" where
  "wellLevels current [] = True"
| "wellLevels current (level # rest) =
     (0 < level \<and> level \<le> current + 1 \<and> wellLevels level rest)"

text \<open>
  The same for the section elements of a reply, whose levels are texts: no level is
  malformed, that is, each one is a number, positive, and at most one above the level
  before it (0 before the first).
\<close>

fun levelsOk :: "int \<Rightarrow> node list \<Rightarrow> bool" where
  "levelsOk current [] = True"
| "levelsOk current (el # els) =
     (case toInt (attribute el ''toclevel'') of
        None \<Rightarrow> False
      | Some level \<Rightarrow> 0 < level \<and> level \<le> current + 1 \<and> levelsOk level els)"

text \<open>
  A sequence of tags is properly nested when every closing tag closes the tag opened
  last, items are opened directly inside lists, links stand directly inside items, and
  nothing is left open at the end.  \<open>nested stack ts\<close> reads \<open>ts\<close> with the tags in \<open>stack\<close>
  open, the innermost first.
\<close>

fun nested :: "tocTag list \<Rightarrow> tocTag list \<Rightarrow> bool" where
  "nested stack [] = (stack = [])"
| "nested stack (OpenList # ts) = nested (OpenList # stack) ts"
| "nested stack (OpenItem # ts) =
     (case stack of OpenList # rest \<Rightarrow> nested (OpenItem # stack) ts | _ \<Rightarrow> False)"
| "nested stack (CloseItem # ts) =
     (case stack of OpenItem # rest \<Rightarrow> nested rest ts | _ \<Rightarrow> False)"
| "nested stack (CloseList # ts) =
     (case stack of OpenList # rest \<Rightarrow> nested rest ts | _ \<Rightarrow> False)"
| "nested stack (Link el # ts) =
     (case stack of OpenItem # rest \<Rightarrow> nested stack ts | _ \<Rightarrow> False)"

text \<open>Section elements to run the program on: levels 1, 2, 2, 3, 1 and levels 1, 3.\<close>

definition sectionEl :: "string \<Rightarrow> string \<Rightarrow> node" where
  "sectionEl level anchor =
     Element ''s'' [(''toclevel'', level), (''linkAnchor'', anchor), (''number'', level),
                    (''line'', anchor)] []"

definition sections12231 :: "node list" where
  "sections12231 =
     [sectionEl ''1'' ''a'', sectionEl ''2'' ''b'', sectionEl ''2'' ''c'', sectionEl ''3'' ''d'',
      sectionEl ''1'' ''e'']"

definition sections13 :: "node list" where
  "sections13 = [sectionEl ''1'' ''a'', sectionEl ''3'' ''b'']"

text \<open>A parse node with the sections of levels 1, 3, and a page text with the marker.\<close>

definition parse13 :: node where
  "parse13 = Element ''parse'' [] [Element ''sections'' [] sections13]"

definition textWithMarker :: string where
  \<open>textWithMarker = ''x <meta property="mw:PageProp/toc" /> y''\<close>


subsection \<open>The passes and what they match\<close>






text \<open>
  A matcher state reached from another one: more of the text is consumed, and what is
  left is the rest of what was left before.  A pattern that consumes at least one code
  unit whenever it matches.
\<close>

definition advances :: "mstate \<Rightarrow> mstate \<Rightarrow> bool" where
  "advances st st' =
     (fst st \<le> fst st' \<and> fst st' - fst st \<le> length (fst (snd st))
      \<and> fst (snd st') = drop (fst st' - fst st) (fst (snd st)))"






section \<open>Handling one reply\<close>

lemma processAll_Nil [simp]: "processAll d [] st = st"
  by (simp add: processAll_def)

lemma processAll_Cons [simp]: "processAll d (r # rs) st = processAll d rs (processReply d r st)"
  by (simp add: processAll_def)

lemma processAll_append: "processAll d (rs @ rs') st = processAll d rs' (processAll d rs st)"
  by (simp add: processAll_def)

lemma addedPageIds_processReply_mono:
  "x \<in> set (addedPageIds rq) \<Longrightarrow> x \<in> set (addedPageIds (fst (processReply d r (rq, u))))"
  by (auto simp: processReply_def setErrorString_def insert_SmallSet_def Let_def
           split: reply.splits option.splits prod.splits if_splits)

lemma addedPageIds_processAll_mono:
  "x \<in> set (addedPageIds (fst st)) \<Longrightarrow> x \<in> set (addedPageIds (fst (processAll d rs st)))"
proof (induction rs arbitrary: st)
  case Nil
  then show ?case by simp
next
  case (Cons r rs)
  obtain rq u where st: "st = (rq, u)" by (cases st)
  with Cons.prems have "x \<in> set (addedPageIds (fst (processReply d r st)))"
    by (simp add: addedPageIds_processReply_mono)
  then show ?case by (simp add: Cons.IH)
qed

lemma processReply_duplicate:
  assumes "namedItem (namedItemIn dd ''api'') ''parse'' = Some parseNode"
      and "toLongLong (attribute parseNode ''pageid'') \<in> set (addedPageIds (fst st))"
  shows "processReply d (Document dd) st = st"
  using assms by (cases st) (simp add: processReply_def insert_SmallSet_def)

lemma drain_processAll:
  "drain d net q st =
     (case processAll d (map (\<lambda>i. net (fst i)) (takeWhile snd q)) st of
        (rq, updated) \<Rightarrow> (rq\<lparr>netReplies := dropWhile snd q\<rparr>, updated))"
  by (induction q arbitrary: st) (auto split: prod.splits)


section \<open>The length guard\<close>

lemma addQuery_eq:
  "addQuery d str (rq, mgr) =
     (rq\<lparr>netReplies := netReplies rq @ [(length mgr, False)]\<rparr>, mgr @ [articleQuery d str])"
  by (simp add: addQuery_def get_def)

lemma foldl_addQuery:
  "foldl (\<lambda>st alt. addQuery d alt st) (rq, mgr) alts =
     (rq\<lparr>netReplies := netReplies rq
            @ map (\<lambda>h. (h, False)) [length mgr ..< length mgr + length alts]\<rparr>,
      mgr @ map (articleQuery d) alts)"
proof (induction alts arbitrary: rq mgr)
  case Nil
  then show ?case by simp
next
  case (Cons a alts)
  have "[length mgr ..< length mgr + Suc (length alts)]
          = length mgr # [Suc (length mgr) ..< Suc (length mgr) + length alts]"
    by (subst upt_rec) simp
  then show ?case by (simp add: addQuery_eq Cons.IH)
qed

lemma MediaWikiArticleRequest_eq:
  "MediaWikiArticleRequest str alts d mgr =
     (newArticleRequest\<lparr>netReplies :=
        map (\<lambda>h. (h, False)) [length mgr ..< length mgr + Suc (length alts)]\<rparr>,
      mgr @ map (articleQuery d) (str # alts))"
proof -
  have "[length mgr ..< length mgr + Suc (length alts)]
          = length mgr # [Suc (length mgr) ..< Suc (length mgr) + length alts]"
    by (subst upt_rec) simp
  then show ?thesis
    by (simp add: MediaWikiArticleRequest_def addQuery_eq foldl_addQuery newArticleRequest_def)
qed

text \<open>
  C3, as the program has it: when the word of an article fetch, or the prefix of a
  prefix search, is longer than 80 units, the manager is left as it was (no network
  operation is issued, for the word or for any alternate) and the result is the
  instant request, which is finished and empty.  The guard looks at the word only: when
  the word is not longer than 80 units, one operation is issued for the word and one for
  every alternate, whatever the length of the alternate.
\<close>

theorem guard_tests_the_primary_word:
  "(length word > 80 \<longrightarrow>
      getArticle d word alts mgr = (InstantData (DataRequestInstant False), mgr)
      \<and> isFinished (DataRequestInstant False)
      \<and> \<not> hasAnyData (DataRequestInstant False)
      \<and> data (DataRequestInstant False) = []
      \<and> prefixMatch d word mgr = (InstantSearch WordSearchRequestInstant, mgr)
      \<and> isFinished WordSearchRequestInstant
      \<and> matches WordSearchRequestInstant = [])
   \<and> (length word \<le> 80 \<longrightarrow>
        snd (getArticle d word alts mgr) = mgr @ map (articleQuery d) (word # alts)
        \<and> snd (prefixMatch d word mgr) = mgr @ [searchQuery (url d) word])"
  by (simp add: getArticle_def prefixMatch_def DataRequestInstant_def WordSearchRequestInstant_def
      finish_def isFinished_def MediaWikiArticleRequest_eq MediaWikiWordSearchRequest_def get_def)

theorem guard_tests_the_primary_word_witness:
  "length (replicate 81 CHR ''a'') > 80
   \<and> getArticle enwiki (replicate 81 CHR ''a'') [''b''] []
       = (InstantData (DataRequestInstant False), [])
   \<and> prefixMatch enwiki (replicate 81 CHR ''a'') [] = (InstantSearch WordSearchRequestInstant, [])
   \<and> length ''a'' \<le> 80
   \<and> snd (getArticle enwiki ''a'' [''b''] []) = [articleQuery enwiki ''a'', articleQuery enwiki ''b'']
   \<and> snd (prefixMatch enwiki ''a'' []) = [searchQuery (url enwiki) ''a'']"
  using guard_tests_the_primary_word [of "replicate 81 CHR ''a''" enwiki "[''b'']" "[]"]
        guard_tests_the_primary_word [of "''a''" enwiki "[''b'']" "[]"]
  by simp

text \<open>
  C3 as the claim states it fails for alternates: the fetch of the word \<open>a\<close> with one
  alternate of 81 units issues a network operation for that alternate.
\<close>

theorem oversized_alternate_is_queried:
  "length (replicate 81 CHR ''b'') > 80
   \<and> map queryItem (snd (getArticle enwiki ''a'' [replicate 81 CHR ''b''] []))
       = [(''page'', ''a''), (''page'', replicate 81 CHR ''b'')]"
  by code_simp


section \<open>The revision id\<close>

text \<open>
  C4, as the program has it: a parsed reply whose api/parse node has the revid "0" is
  skipped; the request is left exactly as it was, so nothing is appended to the data.
\<close>

theorem revid_zero_is_skipped:
  "namedItem (namedItemIn dd ''api'') ''parse'' = Some parseNode
   \<Longrightarrow> attribute parseNode ''revid'' = ''0''
   \<Longrightarrow> processReply d (Document dd) st = st"
  by (cases st) (simp add: processReply_def)

theorem revid_zero_is_skipped_witness:
  "namedItem (namedItemIn (pageDocument [(''revid'', ''0''), (''pageid'', ''7'')]
                 [Element ''text'' [] [Text ''x'']]) ''api'') ''parse''
     = Some (Element ''parse'' [(''revid'', ''0''), (''pageid'', ''7'')]
               [Element ''text'' [] [Text ''x'']])
   \<and> attribute (Element ''parse'' [(''revid'', ''0''), (''pageid'', ''7'')]
                  [Element ''text'' [] [Text ''x'']]) ''revid'' = ''0''
   \<and> processReply enwiki
        (Document (pageDocument [(''revid'', ''0''), (''pageid'', ''7'')]
                     [Element ''text'' [] [Text ''x'']]))
        (newArticleRequest, False)
       = (newArticleRequest, False)"
proof -
  have a: "namedItem (namedItemIn (pageDocument [(''revid'', ''0''), (''pageid'', ''7'')]
                 [Element ''text'' [] [Text ''x'']]) ''api'') ''parse''
     = Some (Element ''parse'' [(''revid'', ''0''), (''pageid'', ''7'')]
               [Element ''text'' [] [Text ''x'']])"
    by code_simp
  have b: "attribute (Element ''parse'' [(''revid'', ''0''), (''pageid'', ''7'')]
                  [Element ''text'' [] [Text ''x'']]) ''revid'' = ''0''"
    by code_simp
  from a b revid_zero_is_skipped [OF a b, of enwiki "(newArticleRequest, False)"]
  show ?thesis by simp
qed

text \<open>
  C4 as the claim states it fails for an absent revid: the attribute then reads as the
  empty text, which is not "0", and the text of the page is appended.
\<close>

theorem absent_revid_is_not_skipped:
  \<open>attribute (Element ''parse'' [(''pageid'', ''7'')] [Element ''text'' [] [Text ''x'']]) ''revid'' = []
   \<and> namedItem (namedItemIn (pageDocument [(''pageid'', ''7'')]
                   [Element ''text'' [] [Text ''x'']]) ''api'') ''parse''
       = Some (Element ''parse'' [(''pageid'', ''7'')] [Element ''text'' [] [Text ''x'']])
   \<and> data newArticleRequest = []
   \<and> data (fst (processReply enwiki
        (Document (pageDocument [(''pageid'', ''7'')] [Element ''text'' [] [Text ''x'']]))
        (newArticleRequest, False))) = ''<div class="mwiki">x</div>''\<close>
  by code_simp


section \<open>Failed queries\<close>

lemma errorAfter_append: "errorAfter e (rs @ rs') = errorAfter (errorAfter e rs) rs'"
  by (induction e rs rule: errorAfter.induct) simp_all

lemma failures_processAll:
  "list_all isFailure fs \<Longrightarrow>
     processAll d fs (rq, u) = (rq\<lparr>errorString := errorAfter (errorString rq) fs\<rparr>, u)"
proof (induction fs arbitrary: rq)
  case Nil
  then show ?case by simp
next
  case (Cons r fs)
  then show ?case
    by (cases r) (simp_all add: isFailure_def processReply_def setErrorString_def)
qed

lemma usable_processReply:
  assumes "namedItem (namedItemIn dd ''api'') ''parse'' = Some parseNode"
      and "attribute parseNode ''revid'' \<noteq> ''0''"
      and "toLongLong (attribute parseNode ''pageid'') \<notin> set (addedPageIds rq)"
      and "namedItem (Some parseNode) ''text'' = Some textNode"
  shows "processReply d (Document dd) (rq, u)
           = (rq\<lparr>addedPageIds := addedPageIds rq @ [toLongLong (attribute parseNode ''pageid'')],
                 data := data rq @ articleBody d parseNode (nodeText textNode),
                 hasAnyData := True\<rparr>, True)"
  using assms by (simp add: processReply_def insert_SmallSet_def)

lemma content_processReply:
  assumes "data rq = data rq'" "addedPageIds rq = addedPageIds rq'" "hasAnyData rq = hasAnyData rq'"
  shows "data (fst (processReply d r (rq, u))) = data (fst (processReply d r (rq', u')))
         \<and> addedPageIds (fst (processReply d r (rq, u))) = addedPageIds (fst (processReply d r (rq', u')))
         \<and> hasAnyData (fst (processReply d r (rq, u))) = hasAnyData (fst (processReply d r (rq', u')))"
  using assms
  by (auto simp: processReply_def setErrorString_def insert_SmallSet_def Let_def
           split: reply.splits option.splits prod.splits)

lemma failure_content:
  "isFailure r \<Longrightarrow>
     data (fst (processReply d r (rq, u))) = data rq
     \<and> addedPageIds (fst (processReply d r (rq, u))) = addedPageIds rq
     \<and> hasAnyData (fst (processReply d r (rq, u))) = hasAnyData rq"
  by (cases r) (simp_all add: isFailure_def processReply_def setErrorString_def)

lemma content_without_failures:
  assumes "data (fst st) = data (fst st')" "addedPageIds (fst st) = addedPageIds (fst st')"
          "hasAnyData (fst st) = hasAnyData (fst st')"
  shows "data (fst (processAll d rs st))
           = data (fst (processAll d (filter (\<lambda>r. \<not> isFailure r) rs) st'))
         \<and> addedPageIds (fst (processAll d rs st))
           = addedPageIds (fst (processAll d (filter (\<lambda>r. \<not> isFailure r) rs) st'))
         \<and> hasAnyData (fst (processAll d rs st))
           = hasAnyData (fst (processAll d (filter (\<lambda>r. \<not> isFailure r) rs) st'))"
  using assms
proof (induction rs arbitrary: st st')
  case Nil
  then show ?case by simp
next
  case (Cons r rs)
  obtain rq u rq' u' where s: "st = (rq, u)" "st' = (rq', u')"
    by (cases st, cases st') auto
  show ?case
  proof (cases "isFailure r")
    case True
    from failure_content [OF True, of d rq u] Cons.prems
    have "data (fst (processReply d r st)) = data (fst st')"
         "addedPageIds (fst (processReply d r st)) = addedPageIds (fst st')"
         "hasAnyData (fst (processReply d r st)) = hasAnyData (fst st')"
      by (simp_all add: s)
    from Cons.IH [OF this] True show ?thesis by simp
  next
    case False
    from content_processReply [of rq rq' d r u u'] Cons.prems
    have "data (fst (processReply d r st)) = data (fst (processReply d r st'))"
         "addedPageIds (fst (processReply d r st)) = addedPageIds (fst (processReply d r st'))"
         "hasAnyData (fst (processReply d r st)) = hasAnyData (fst (processReply d r st'))"
      by (simp_all add: s)
    from Cons.IH [OF this] False show ?thesis by simp
  qed
qed

text \<open>
  C8: a reply with a transport error or with a body that is not XML only overwrites the
  error string.  The draining loop does not stop at it: it handles every reply of the
  longest finished prefix of the queue, one after the other.  When that prefix holds
  failed replies, then a usable page (a parse node with a revid other than "0", a page
  id that is new, and a text), then failed replies again, the loop leaves the request
  with the article body of the page appended to the data, the page id added, the "has
  any data" flag set, the error string of the last failure, and the rest of the queue;
  the flag \<open>updated\<close> is set.  For any replies, the data is what the replies that did not
  fail yield without the failed ones.
\<close>

theorem failed_queries_do_not_block_siblings:
  assumes "list_all isFailure fs" and "list_all isFailure fs'"
      and "namedItem (namedItemIn dd ''api'') ''parse'' = Some parseNode"
      and "attribute parseNode ''revid'' \<noteq> ''0''"
      and "toLongLong (attribute parseNode ''pageid'') \<notin> set (addedPageIds rq)"
      and "namedItem (Some parseNode) ''text'' = Some textNode"
      and "map (\<lambda>i. net (fst i)) (takeWhile snd q) = fs @ Document dd # fs'"
  shows "processReply d (NetworkError e) (rq, u) = (rq\<lparr>errorString := e\<rparr>, u)
         \<and> processReply d (XmlError s l c) (rq, u)
             = (rq\<lparr>errorString := xmlParseError s l c\<rparr>, u)
         \<and> drain d net q (rq, u)
             = (rq\<lparr>errorString := errorAfter (errorString rq) (fs @ fs'),
                   addedPageIds := addedPageIds rq @ [toLongLong (attribute parseNode ''pageid'')],
                   data := data rq @ articleBody d parseNode (nodeText textNode),
                   hasAnyData := True,
                   netReplies := dropWhile snd q\<rparr>, True)
         \<and> drain d net q' st
             = (case processAll d (map (\<lambda>i. net (fst i)) (takeWhile snd q')) st of
                  (rq', updated) \<Rightarrow> (rq'\<lparr>netReplies := dropWhile snd q'\<rparr>, updated))
         \<and> data (fst (processAll d rs st))
             = data (fst (processAll d (filter (\<lambda>r. \<not> isFailure r) rs) st))"
proof -
  let ?pid = "toLongLong (attribute parseNode ''pageid'')"
  let ?rq1 = "rq\<lparr>errorString := errorAfter (errorString rq) fs\<rparr>"
  have 1: "processAll d fs (rq, u) = (?rq1, u)"
    using assms(1) by (rule failures_processAll)
  have "?pid \<notin> set (addedPageIds ?rq1)" using assms(5) by simp
  from usable_processReply [OF assms(3,4) this assms(6), of d u]
  have 2: "processReply d (Document dd) (?rq1, u)
             = (?rq1\<lparr>addedPageIds := addedPageIds rq @ [?pid],
                     data := data rq @ articleBody d parseNode (nodeText textNode),
                     hasAnyData := True\<rparr>, True)"
    by simp
  have "processAll d (fs @ Document dd # fs') (rq, u)
          = (rq\<lparr>errorString := errorAfter (errorString rq) (fs @ fs'),
                addedPageIds := addedPageIds rq @ [?pid],
                data := data rq @ articleBody d parseNode (nodeText textNode),
                hasAnyData := True\<rparr>, True)"
    by (simp add: processAll_append 1 2 failures_processAll [OF assms(2)] errorAfter_append)
  then have dr: "drain d net q (rq, u)
             = (rq\<lparr>errorString := errorAfter (errorString rq) (fs @ fs'),
                   addedPageIds := addedPageIds rq @ [?pid],
                   data := data rq @ articleBody d parseNode (nodeText textNode),
                   hasAnyData := True,
                   netReplies := dropWhile snd q\<rparr>, True)"
    by (simp add: drain_processAll assms(7))
  have f1: "processReply d (NetworkError e) (rq, u) = (rq\<lparr>errorString := e\<rparr>, u)"
    by (simp add: processReply_def setErrorString_def)
  have f2: "processReply d (XmlError s l c) (rq, u) = (rq\<lparr>errorString := xmlParseError s l c\<rparr>, u)"
    by (simp add: processReply_def setErrorString_def)
  from content_without_failures [of st st d rs]
  have tr: "data (fst (processAll d rs st))
             = data (fst (processAll d (filter (\<lambda>r. \<not> isFailure r) rs) st))"
    by simp
  show ?thesis
    by (intro conjI f1 f2 dr drain_processAll tr)
qed

theorem failed_queries_do_not_block_siblings_witness:
  \<open>list_all isFailure [NetworkError ''timeout'']
   \<and> list_all isFailure [XmlError ''bad'' 1 2]
   \<and> namedItem (namedItemIn (pageDocument [(''revid'', ''5''), (''pageid'', ''7'')]
                   [Element ''text'' [] [Text ''x'']]) ''api'') ''parse''
       = Some (Element ''parse'' [(''revid'', ''5''), (''pageid'', ''7'')]
                 [Element ''text'' [] [Text ''x'']])
   \<and> map (\<lambda>i. mixedNet (fst i)) (takeWhile snd mixedQueue)
       = [NetworkError ''timeout'']
         @ Document (pageDocument [(''revid'', ''5''), (''pageid'', ''7'')]
                       [Element ''text'' [] [Text ''x'']])
         # [XmlError ''bad'' 1 2]
   \<and> data (fst (drain enwiki mixedNet mixedQueue (newArticleRequest, False)))
       = ''<div class="mwiki">x</div>''
   \<and> errorString (fst (drain enwiki mixedNet mixedQueue (newArticleRequest, False)))
       = ''XML parse error: bad at 1,2''
   \<and> addedPageIds (fst (drain enwiki mixedNet mixedQueue (newArticleRequest, False))) = [7]
   \<and> netReplies (fst (drain enwiki mixedNet mixedQueue (newArticleRequest, False))) = [(3, False)]\<close>
proof -
  let ?p = "Element ''parse'' [(''revid'', ''5''), (''pageid'', ''7'')] [Element ''text'' [] [Text ''x'']]"
  let ?dd = "pageDocument [(''revid'', ''5''), (''pageid'', ''7'')] [Element ''text'' [] [Text ''x'']]"
  have a: "list_all isFailure [NetworkError ''timeout'']"
    by code_simp
  have b: "list_all isFailure [XmlError ''bad'' 1 2]"
    by code_simp
  have c: "namedItem (namedItemIn ?dd ''api'') ''parse'' = Some ?p"
    by code_simp
  have e: "attribute ?p ''revid'' \<noteq> ''0''"
    by code_simp
  have f: "toLongLong (attribute ?p ''pageid'') \<notin> set (addedPageIds newArticleRequest)"
    by code_simp
  have g: "namedItem (Some ?p) ''text'' = Some (Element ''text'' [] [Text ''x''])"
    by code_simp
  have h: "map (\<lambda>i. mixedNet (fst i)) (takeWhile snd mixedQueue)
             = [NetworkError ''timeout''] @ Document ?dd # [XmlError ''bad'' 1 2]"
    by code_simp
  note t = failed_queries_do_not_block_siblings [OF a b c e f g h, of enwiki]
  note dr = conjunct1 [OF conjunct2 [OF conjunct2 [OF t]]]
  have 1: \<open>data (fst (drain enwiki mixedNet mixedQueue (newArticleRequest, False)))
             = ''<div class="mwiki">x</div>''\<close>
    by (subst dr) code_simp
  have 2: "errorString (fst (drain enwiki mixedNet mixedQueue (newArticleRequest, False)))
             = ''XML parse error: bad at 1,2''"
    by (subst dr) code_simp
  have 3: "addedPageIds (fst (drain enwiki mixedNet mixedQueue (newArticleRequest, False))) = [7]"
    by (subst dr) code_simp
  have 4: "netReplies (fst (drain enwiki mixedNet mixedQueue (newArticleRequest, False))) = [(3, False)]"
    by (subst dr) code_simp
  show ?thesis
    by (intro conjI a b c h 1 2 3 4)
qed


section \<open>Pages without text\<close>

text \<open>
  C10: when the api/parse node of a reply has a revid other than "0" and a page id that
  is not yet among the added page ids, but no text child, the page id is added all the
  same and nothing else changes.  Whatever replies are handled after it, a later reply
  with the same page id leaves the request as it is: its text is never appended.
\<close>

theorem textless_page_blocks_later_queries:
  assumes "namedItem (namedItemIn dd ''api'') ''parse'' = Some parseNode"
      and "attribute parseNode ''revid'' \<noteq> ''0''"
      and "toLongLong (attribute parseNode ''pageid'') \<notin> set (addedPageIds rq)"
      and "namedItem (Some parseNode) ''text'' = None"
      and "namedItem (namedItemIn dd' ''api'') ''parse'' = Some parseNode'"
      and "toLongLong (attribute parseNode' ''pageid'') = toLongLong (attribute parseNode ''pageid'')"
  shows "processReply d (Document dd) (rq, u)
           = (rq\<lparr>addedPageIds := addedPageIds rq @ [toLongLong (attribute parseNode ''pageid'')]\<rparr>, u)
         \<and> processReply d (Document dd') (processAll d rs (processReply d (Document dd) (rq, u)))
           = processAll d rs (processReply d (Document dd) (rq, u))"
proof -
  let ?pid = "toLongLong (attribute parseNode ''pageid'')"
  have first: "processReply d (Document dd) (rq, u) = (rq\<lparr>addedPageIds := addedPageIds rq @ [?pid]\<rparr>, u)"
    using assms(1-4) by (simp add: processReply_def insert_SmallSet_def)
  have "?pid \<in> set (addedPageIds (fst (processReply d (Document dd) (rq, u))))"
    by (simp add: first)
  then have "?pid \<in> set (addedPageIds (fst (processAll d rs (processReply d (Document dd) (rq, u)))))"
    by (rule addedPageIds_processAll_mono)
  then have "processReply d (Document dd') (processAll d rs (processReply d (Document dd) (rq, u)))
           = processAll d rs (processReply d (Document dd) (rq, u))"
    using assms(5,6) by (simp add: processReply_duplicate)
  with first show ?thesis by simp
qed


theorem textless_page_blocks_later_queries_witness:
  "namedItem (namedItemIn (pageDocument [(''revid'', ''5''), (''pageid'', ''7'')] []) ''api'') ''parse''
     = Some (Element ''parse'' [(''revid'', ''5''), (''pageid'', ''7'')] [])
   \<and> attribute (Element ''parse'' [(''revid'', ''5''), (''pageid'', ''7'')] []) ''revid'' \<noteq> ''0''
   \<and> toLongLong (attribute (Element ''parse'' [(''revid'', ''5''), (''pageid'', ''7'')] []) ''pageid'')
       \<notin> set (addedPageIds newArticleRequest)
   \<and> namedItem (Some (Element ''parse'' [(''revid'', ''5''), (''pageid'', ''7'')] [])) ''text'' = None
   \<and> processReply enwiki (Document (pageDocument [(''revid'', ''5''), (''pageid'', ''7'')] []))
        (newArticleRequest, False)
       = (newArticleRequest\<lparr>addedPageIds := [7]\<rparr>, False)
   \<and> processReply enwiki
        (Document (pageDocument [(''revid'', ''6''), (''pageid'', ''7'')]
                     [Element ''text'' [] [Text ''x'']]))
        (processAll enwiki [NetworkError ''timeout'']
           (processReply enwiki (Document (pageDocument [(''revid'', ''5''), (''pageid'', ''7'')] []))
              (newArticleRequest, False)))
       = processAll enwiki [NetworkError ''timeout'']
           (processReply enwiki (Document (pageDocument [(''revid'', ''5''), (''pageid'', ''7'')] []))
              (newArticleRequest, False))"
proof -
  let ?p = "Element ''parse'' [(''revid'', ''5''), (''pageid'', ''7'')] []"
  let ?p' = "Element ''parse'' [(''revid'', ''6''), (''pageid'', ''7'')] [Element ''text'' [] [Text ''x'']]"
  have a: "namedItem (namedItemIn (pageDocument [(''revid'', ''5''), (''pageid'', ''7'')] []) ''api'') ''parse''
             = Some ?p"
    by code_simp
  have b: "attribute ?p ''revid'' \<noteq> ''0''"
    by code_simp
  have c: "toLongLong (attribute ?p ''pageid'') \<notin> set (addedPageIds newArticleRequest)"
    by code_simp
  have e: "namedItem (Some ?p) ''text'' = None"
    by code_simp
  have f: "namedItem (namedItemIn (pageDocument [(''revid'', ''6''), (''pageid'', ''7'')]
                 [Element ''text'' [] [Text ''x'']]) ''api'') ''parse'' = Some ?p'"
    by code_simp
  have g: "toLongLong (attribute ?p' ''pageid'') = toLongLong (attribute ?p ''pageid'')"
    by code_simp
  have k: "addedPageIds newArticleRequest @ [toLongLong (attribute ?p ''pageid'')] = [7]"
    by code_simp
  note t = textless_page_blocks_later_queries
             [OF a b c e f g, of enwiki False "[NetworkError ''timeout'']"]
  have t1: "processReply enwiki (Document (pageDocument [(''revid'', ''5''), (''pageid'', ''7'')] []))
              (newArticleRequest, False)
            = (newArticleRequest\<lparr>addedPageIds := [7]\<rparr>, False)"
    using conjunct1 [OF t] unfolding k .
  show ?thesis
    by (intro conjI a b c e t1 conjunct2 [OF t])
qed

section \<open>Duplicate pages\<close>

lemma data_changed_inserted:
  "data (fst (processReply d r (rq, u))) \<noteq> data rq \<Longrightarrow> replyPageId r = Some p
   \<Longrightarrow> p \<in> set (addedPageIds (fst (processReply d r (rq, u))))"
  by (auto simp: processReply_def replyPageId_def insert_SmallSet_def setErrorString_def Let_def
           split: reply.splits option.splits prod.splits if_splits)

lemma processReply_same_pageId:
  "replyPageId r = Some p \<Longrightarrow> p \<in> set (addedPageIds (fst st)) \<Longrightarrow> processReply d r st = st"
  by (cases r) (auto simp: replyPageId_def processReply_duplicate)

lemma processAll_take_Suc:
  "i < length rs \<Longrightarrow> processAll d (take (Suc i) rs) st = processReply d (rs ! i) (processAll d (take i rs) st)"
  by (simp add: take_Suc_conv_app_nth processAll_append)

lemma finish_fields [simp]:
  "addedPageIds (finish rq) = addedPageIds rq" "data (finish rq) = data rq"
  "netReplies (finish rq) = netReplies rq" "isFinishedFlag (finish rq) = True"
  by (simp_all add: finish_def)

lemma update_fields [simp]:
  "addedPageIds (update rq) = addedPageIds rq" "data (update rq) = data rq"
  "netReplies (update rq) = netReplies rq" "isFinishedFlag (update rq) = isFinishedFlag rq"
  "finishedSignals (update rq) = finishedSignals rq"
  by (simp_all add: update_def)

lemma addedPageIds_step_mono:
  "x \<in> set (addedPageIds rq) \<Longrightarrow> x \<in> set (addedPageIds (step d net rq ev))"
proof (cases ev)
  case Cancel
  assume "x \<in> set (addedPageIds rq)"
  with Cancel show ?thesis by (simp add: cancel_def)
next
  case (Finished r)
  assume x: "x \<in> set (addedPageIds rq)"
  show ?thesis
  proof (cases "markFinished r (netReplies rq)")
    case None
    with Finished x show ?thesis by (simp add: requestFinished_def)
  next
    case (Some marked)
    let ?st = "processAll d (map (\<lambda>i. net (fst i)) (takeWhile snd marked)) (rq\<lparr>netReplies := marked\<rparr>, False)"
    from x have "x \<in> set (addedPageIds (fst (rq\<lparr>netReplies := marked\<rparr>, False)))" by simp
    then have "x \<in> set (addedPageIds (fst ?st))" by (rule addedPageIds_processAll_mono)
    with Finished Some x show ?thesis
      by (auto simp: requestFinished_def drain_processAll split: prod.splits)
  qed
qed

lemma addedPageIds_run_mono:
  "x \<in> set (addedPageIds rq) \<Longrightarrow> x \<in> set (addedPageIds (run d net rq evs))"
  unfolding run_def
  by (induction evs arbitrary: rq) (simp_all add: addedPageIds_step_mono)

text \<open>
  C2: \<open>SmallSet::insert\<close> returns false exactly when the element is already in the set,
  and it never removes an element; the added page ids of a request never shrink, whatever
  events the request sees.  When the replies \<open>rs\<close> are handled in this order and two of
  them, at the positions \<open>i < j\<close>, carry the same page identity, then, if handling the
  first has appended something to the data, handling the second appends nothing: the
  content of a page identity is appended at most once.
\<close>

theorem page_identity_appended_at_most_once:
  "fst (insert_SmallSet x es) = (x \<notin> set es)
   \<and> set es \<subseteq> set (snd (insert_SmallSet x es))
   \<and> set (addedPageIds rq) \<subseteq> set (addedPageIds (run d net rq evs))
   \<and> (i < j \<and> j < length rs
       \<and> replyPageId (rs ! i) = Some p \<and> replyPageId (rs ! j) = Some p
       \<and> data (fst (processAll d (take (Suc i) rs) st)) \<noteq> data (fst (processAll d (take i rs) st))
      \<longrightarrow> data (fst (processAll d (take (Suc j) rs) st)) = data (fst (processAll d (take j rs) st)))"
proof -
  have once: "data (fst (processAll d (take (Suc j) rs) st)) = data (fst (processAll d (take j rs) st))"
    if ij: "i < j" "j < length rs"
      and pi: "replyPageId (rs ! i) = Some p" and pj: "replyPageId (rs ! j) = Some p"
      and ch: "data (fst (processAll d (take (Suc i) rs) st)) \<noteq> data (fst (processAll d (take i rs) st))"
  proof -
    let ?si = "processAll d (take i rs) st"
    let ?si' = "processAll d (take (Suc i) rs) st"
    let ?sj = "processAll d (take j rs) st"
    from ij have i: "i < length rs" by simp
    have si': "?si' = processReply d (rs ! i) ?si"
      using i by (rule processAll_take_Suc)
    obtain rqi ui where si: "?si = (rqi, ui)" by (cases ?si)
    from ch have "data (fst (processReply d (rs ! i) (rqi, ui))) \<noteq> data rqi"
      by (simp add: si' si)
    then have "p \<in> set (addedPageIds (fst (processReply d (rs ! i) (rqi, ui))))"
      using pi by (rule data_changed_inserted)
    then have in_i: "p \<in> set (addedPageIds (fst ?si'))"
      by (simp add: si' si)
    from ij have "take j rs = take (Suc i) rs @ take (j - Suc i) (drop (Suc i) rs)"
      by (metis Suc_leI le_add_diff_inverse take_add)
    then have "?sj = processAll d (take (j - Suc i) (drop (Suc i) rs)) ?si'"
      by (simp add: processAll_append)
    with in_i have "p \<in> set (addedPageIds (fst ?sj))"
      by (simp add: addedPageIds_processAll_mono)
    with pj have "processReply d (rs ! j) ?sj = ?sj"
      by (rule processReply_same_pageId)
    then show ?thesis
      using ij(2) by (simp add: processAll_take_Suc)
  qed
  have "set (addedPageIds rq) \<subseteq> set (addedPageIds (run d net rq evs))"
    using addedPageIds_run_mono by blast
  with once show ?thesis
    by (auto simp: insert_SmallSet_def)
qed

theorem page_identity_appended_at_most_once_witness:
  "0 < Suc 0 \<and> Suc 0 < length twoRedirects
   \<and> replyPageId (twoRedirects ! 0) = Some 7 \<and> replyPageId (twoRedirects ! Suc 0) = Some 7
   \<and> data (fst (processAll enwiki (take (Suc 0) twoRedirects) (newArticleRequest, False)))
       \<noteq> data (fst (processAll enwiki (take 0 twoRedirects) (newArticleRequest, False)))
   \<and> data (fst (processAll enwiki (take (Suc (Suc 0)) twoRedirects) (newArticleRequest, False)))
       = data (fst (processAll enwiki (take (Suc 0) twoRedirects) (newArticleRequest, False)))"
proof -
  have h: "0 < Suc 0 \<and> Suc 0 < length twoRedirects
   \<and> replyPageId (twoRedirects ! 0) = Some 7 \<and> replyPageId (twoRedirects ! Suc 0) = Some 7
   \<and> data (fst (processAll enwiki (take (Suc 0) twoRedirects) (newArticleRequest, False)))
       \<noteq> data (fst (processAll enwiki (take 0 twoRedirects) (newArticleRequest, False)))"
    by code_simp
  note t = page_identity_appended_at_most_once
             [where i = 0 and j = "Suc 0" and rs = twoRedirects and p = 7 and d = enwiki
                and st = "(newArticleRequest, False)"]
  note imp = conjunct2 [OF conjunct2 [OF conjunct2 [OF t]]]
  from mp [OF imp h] h show ?thesis by blast
qed

section \<open>The order of the fragments\<close>

lemma sameContent_refl [simp]: "sameContent rq rq"
  by (simp add: sameContent_def)

lemma sameContent_trans: "sameContent a b \<Longrightarrow> sameContent b c \<Longrightarrow> sameContent a c"
  by (simp add: sameContent_def)

lemma sameContent_sym: "sameContent a b \<Longrightarrow> sameContent b a"
  by (simp add: sameContent_def)

lemma sameContent_frame [simp]:
  "sameContent (rq\<lparr>netReplies := q\<rparr>) rq' = sameContent rq rq'"
  "sameContent rq (rq'\<lparr>netReplies := q\<rparr>) = sameContent rq rq'"
  "sameContent (finish rq) rq' = sameContent rq rq'"
  "sameContent (update rq) rq' = sameContent rq rq'"
  by (simp_all add: sameContent_def finish_def update_def)

lemma sameContent_processReply:
  "sameContent rq rq' \<Longrightarrow>
     sameContent (fst (processReply d r (rq, u))) (fst (processReply d r (rq', u')))"
  by (auto simp: sameContent_def processReply_def setErrorString_def insert_SmallSet_def Let_def
           split: reply.splits option.splits prod.splits)

lemma sameContent_processAll:
  "sameContent (fst st) (fst st') \<Longrightarrow>
     sameContent (fst (processAll d rs st)) (fst (processAll d rs st'))"
proof (induction rs arbitrary: st st')
  case Nil
  then show ?case by simp
next
  case (Cons r rs)
  obtain rq u rq' u' where s: "st = (rq, u)" "st' = (rq', u')"
    by (cases st, cases st') auto
  with Cons.prems have "sameContent (fst (processReply d r st)) (fst (processReply d r st'))"
    by (simp add: sameContent_processReply)
  then show ?case by (simp add: Cons.IH)
qed

lemma flags_processReply:
  "isFinishedFlag (fst (processReply d r (rq, u))) = isFinishedFlag rq
   \<and> finishedSignals (fst (processReply d r (rq, u))) = finishedSignals rq"
  by (auto simp: processReply_def setErrorString_def insert_SmallSet_def Let_def
           split: reply.splits option.splits prod.splits)

lemma flags_processAll:
  "isFinishedFlag (fst (processAll d rs st)) = isFinishedFlag (fst st)
   \<and> finishedSignals (fst (processAll d rs st)) = finishedSignals (fst st)"
proof (induction rs arbitrary: st)
  case Nil
  then show ?case by simp
next
  case (Cons r rs)
  obtain rq u where s: "st = (rq, u)" by (cases st)
  show ?case using Cons.IH [of "processReply d r st"] flags_processReply [of d r rq u]
    by (simp add: s)
qed

lemma markFinished_None: "r \<notin> fst ` set q \<Longrightarrow> markFinished r q = None"
  by (induction q) auto

lemma markFinished_Some:
  "distinct hs \<Longrightarrow> r \<in> set hs \<Longrightarrow>
     markFinished r (map (\<lambda>h. (h, h \<in> C)) hs) = Some (map (\<lambda>h. (h, h \<in> insert r C)) hs)"
proof (induction hs)
  case Nil
  then show ?case by simp
next
  case (Cons h hs)
  show ?case
  proof (cases "h = r")
    case True
    with Cons.prems have "r \<notin> set hs" by simp
    then have "map (\<lambda>h. (h, h \<in> C)) hs = map (\<lambda>h. (h, h \<in> insert r C)) hs"
      by (induction hs) auto
    with True show ?thesis by simp
  next
    case False
    with Cons show ?thesis by simp
  qed
qed

lemma takeWhile_grow:
  "(\<And>x. P x \<Longrightarrow> P' x) \<Longrightarrow> takeWhile P' xs = takeWhile P xs @ takeWhile P' (dropWhile P xs)"
  by (induction xs) auto

lemma dropWhile_grow:
  "(\<And>x. P x \<Longrightarrow> P' x) \<Longrightarrow> dropWhile P' xs = dropWhile P' (dropWhile P xs)"
  by (induction xs) auto

lemma takeWhile_snd_map:
  "takeWhile snd (map (\<lambda>h. (h, h \<in> C)) hs) = map (\<lambda>h. (h, h \<in> C)) (takeWhile (\<lambda>h. h \<in> C) hs)"
  by (induction hs) auto

lemma dropWhile_snd_map:
  "dropWhile snd (map (\<lambda>h. (h, h \<in> C)) hs) = map (\<lambda>h. (h, h \<in> C)) (dropWhile (\<lambda>h. h \<in> C) hs)"
  by (induction hs) auto

text \<open>
  One event on a request whose queue is \<open>q\<close>, with the marks that the set \<open>C\<close> of
  finished replies gives, and whose front is not in \<open>C\<close>.
\<close>

lemma requestFinished_queue:
  assumes q: "netReplies rq = map (\<lambda>h. (h, h \<in> C)) q"
      and dq: "distinct q"
      and front: "q \<noteq> [] \<Longrightarrow> hd q \<notin> C"
      and fin: "isFinishedFlag rq = (q = [])"
  shows "netReplies (requestFinished d net r rq)
           = map (\<lambda>h. (h, h \<in> insert r C)) (dropWhile (\<lambda>h. h \<in> insert r C) q)
         \<and> sameContent (requestFinished d net r rq)
             (fst (processAll d (map net (takeWhile (\<lambda>h. h \<in> insert r C) q)) (rq, False)))
         \<and> isFinishedFlag (requestFinished d net r rq)
             = (dropWhile (\<lambda>h. h \<in> insert r C) q = [])"
proof (cases "q = []")
  case True
  with fin q show ?thesis by (simp add: requestFinished_def isFinished_def)
next
  case False
  with fin have nf: "\<not> isFinished rq" by (simp add: isFinished_def)
  from False front have h0: "hd q \<notin> C" by simp
  obtain h0 q' where qc: "q = h0 # q'" using False by (cases q) auto
  show ?thesis
  proof (cases "r \<in> set q")
    case False
    then have "r \<notin> fst ` set (netReplies rq)" by (auto simp: q)
    then have "markFinished r (netReplies rq) = None" by (rule markFinished_None)
    then have same: "requestFinished d net r rq = rq"
      by (simp add: requestFinished_def)
    from False have eq: "map (\<lambda>h. (h, h \<in> insert r C)) q = map (\<lambda>h. (h, h \<in> C)) q"
      by (induction q) auto
    from False h0 qc have "h0 \<notin> insert r C" by auto
    then have "dropWhile (\<lambda>h. h \<in> insert r C) q = q" "takeWhile (\<lambda>h. h \<in> insert r C) q = []"
      by (simp_all add: qc)
    with same eq q fin show ?thesis by simp
  next
    case True
    let ?C' = "insert r C"
    let ?marked = "map (\<lambda>h. (h, h \<in> ?C')) q"
    have m: "markFinished r (netReplies rq) = Some ?marked"
      unfolding q using dq True by (rule markFinished_Some)
    let ?st = "processAll d (map net (takeWhile (\<lambda>h. h \<in> ?C') q)) (rq\<lparr>netReplies := ?marked\<rparr>, False)"
    obtain rq1 upd where st: "?st = (rq1, upd)" by (cases ?st)
    have dr: "drain d net ?marked (rq\<lparr>netReplies := ?marked\<rparr>, False)
                = (rq1\<lparr>netReplies := map (\<lambda>h. (h, h \<in> ?C')) (dropWhile (\<lambda>h. h \<in> ?C') q)\<rparr>, upd)"
      by (simp add: drain_processAll takeWhile_snd_map dropWhile_snd_map comp_def st del: insert_iff)
    have sc: "sameContent rq1 (fst (processAll d (map net (takeWhile (\<lambda>h. h \<in> ?C') q)) (rq, False)))"
      using sameContent_processAll [of "(rq\<lparr>netReplies := ?marked\<rparr>, False)" "(rq, False)" d
              "map net (takeWhile (\<lambda>h. h \<in> ?C') q)"]
      by (simp add: st del: insert_iff)
    have fl: "isFinishedFlag rq1 = isFinishedFlag rq"
      using flags_processAll [of d "map net (takeWhile (\<lambda>h. h \<in> ?C') q)" "(rq\<lparr>netReplies := ?marked\<rparr>, False)"]
      by (simp add: st del: insert_iff)
    with fin False have nf1: "\<not> isFinishedFlag rq1" by simp
    show ?thesis
      using nf m dr sc nf1
      by (simp add: requestFinished_def finish_def update_def sameContent_def del: insert_iff)
  qed
qed

lemma run_snoc: "run d net rq (evs @ [ev]) = step d net (run d net rq evs) ev"
  by (simp add: run_def)

lemma run_Finished_queue:
  assumes dh: "distinct hs" and ne: "hs \<noteq> []"
      and q0: "netReplies rq0 = map (\<lambda>h. (h, False)) hs" and f0: "\<not> isFinishedFlag rq0"
  shows "netReplies (run d net rq0 (map Finished rs))
           = map (\<lambda>h. (h, h \<in> set rs)) (dropWhile (\<lambda>h. h \<in> set rs) hs)
         \<and> sameContent (run d net rq0 (map Finished rs))
             (fst (processAll d (map net (takeWhile (\<lambda>h. h \<in> set rs) hs)) (rq0, False)))
         \<and> isFinishedFlag (run d net rq0 (map Finished rs))
             = (dropWhile (\<lambda>h. h \<in> set rs) hs = [])"
proof (induction rs rule: rev_induct)
  case Nil
  from ne have "dropWhile (\<lambda>h. False) hs = hs" "takeWhile (\<lambda>h. False) hs = []"
    by (cases hs; simp)+
  with q0 f0 ne show ?case by (simp add: run_def)
next
  case (snoc r rs)
  let ?C = "set rs"
  let ?C' = "insert r (set rs)"
  let ?q = "dropWhile (\<lambda>h. h \<in> ?C) hs"
  let ?rq = "run d net rq0 (map Finished rs)"
  from snoc.IH have q: "netReplies ?rq = map (\<lambda>h. (h, h \<in> ?C)) ?q"
    and sc: "sameContent ?rq (fst (processAll d (map net (takeWhile (\<lambda>h. h \<in> ?C) hs)) (rq0, False)))"
    and fin: "isFinishedFlag ?rq = (?q = [])"
    by simp_all
  have dq: "distinct ?q" using dh by (rule distinct_dropWhile)
  have front: "?q \<noteq> [] \<Longrightarrow> hd ?q \<notin> ?C"
    using hd_dropWhile [of "\<lambda>h. h \<in> ?C" hs] by simp
  note step = requestFinished_queue [OF q dq front fin, of d net r]
  have grow: "\<And>x. x \<in> ?C \<Longrightarrow> x \<in> ?C'" by simp
  have tw: "takeWhile (\<lambda>h. h \<in> ?C') hs = takeWhile (\<lambda>h. h \<in> ?C) hs @ takeWhile (\<lambda>h. h \<in> ?C') ?q"
    using grow by (rule takeWhile_grow)
  have dw: "dropWhile (\<lambda>h. h \<in> ?C') hs = dropWhile (\<lambda>h. h \<in> ?C') ?q"
    using grow by (rule dropWhile_grow)
  have run': "run d net rq0 (map Finished (rs @ [r])) = requestFinished d net r ?rq"
    by (simp add: run_snoc)
  have set': "set (rs @ [r]) = ?C'" by simp
  have sc1: "sameContent (requestFinished d net r ?rq)
               (fst (processAll d (map net (takeWhile (\<lambda>h. h \<in> ?C') ?q)) (?rq, False)))"
    using step by blast
  have sc2: "sameContent (fst (processAll d (map net (takeWhile (\<lambda>h. h \<in> ?C') ?q)) (?rq, False)))
               (fst (processAll d (map net (takeWhile (\<lambda>h. h \<in> ?C') ?q))
                       (processAll d (map net (takeWhile (\<lambda>h. h \<in> ?C) hs)) (rq0, False))))"
    using sc by (intro sameContent_processAll) simp
  have "sameContent (requestFinished d net r ?rq)
          (fst (processAll d (map net (takeWhile (\<lambda>h. h \<in> ?C') hs)) (rq0, False)))"
    unfolding tw map_append processAll_append
    using sc1 sc2 by (rule sameContent_trans)
  with step show ?case
    unfolding run' set' dw by blast
qed

text \<open>
  C1: the constructor issues one operation for the word and one for each alternate, in
  this order, and queues their replies in this order.  After any sequence \<open>rs\<close> of
  completion events (in any order, with repetitions, with replies of other requests),
  the queue is what is left of the submitted replies after dropping the longest prefix
  of finished ones, each with its mark, and the data is what handling the replies of
  that prefix in submission order yields: it depends on which replies have finished,
  not on the order in which they did.
\<close>

theorem fragments_follow_submission_order:
  "map fst (netReplies (fst (MediaWikiArticleRequest str alts d mgr)))
     = [length mgr ..< length mgr + Suc (length alts)]
   \<and> snd (MediaWikiArticleRequest str alts d mgr) = mgr @ map (articleQuery d) (str # alts)
   \<and> netReplies (run d net (fst (MediaWikiArticleRequest str alts d mgr)) (map Finished rs))
       = map (\<lambda>h. (h, h \<in> set rs))
           (dropWhile (\<lambda>h. h \<in> set rs) [length mgr ..< length mgr + Suc (length alts)])
   \<and> data (run d net (fst (MediaWikiArticleRequest str alts d mgr)) (map Finished rs))
       = data (fst (processAll d
                 (map net (takeWhile (\<lambda>h. h \<in> set rs) [length mgr ..< length mgr + Suc (length alts)]))
                 (fst (MediaWikiArticleRequest str alts d mgr), False)))"
proof -
  let ?hs = "[length mgr ..< length mgr + Suc (length alts)]"
  let ?rq0 = "fst (MediaWikiArticleRequest str alts d mgr)"
  have q0: "netReplies ?rq0 = map (\<lambda>h. (h, False)) ?hs"
    by (simp add: MediaWikiArticleRequest_eq)
  have f0: "\<not> isFinishedFlag ?rq0"
    by (simp add: MediaWikiArticleRequest_eq newArticleRequest_def)
  have dh: "distinct ?hs" by simp
  have ne: "?hs \<noteq> []" by simp
  note inv = run_Finished_queue [OF dh ne q0 f0, of d net rs]
  have hs: "map fst (netReplies ?rq0) = ?hs"
    unfolding q0 by (simp add: comp_def)
  from inv hs show ?thesis
    by (simp add: sameContent_def MediaWikiArticleRequest_eq)
qed

text \<open>
  Three terms whose replies finish in the order 2, 0, 1: nothing is appended before the
  reply of the word has finished, and the fragments stand in the order of submission.
\<close>

lemma replies_finishing_out_of_order:
  \<open>data (run enwiki numberedNet (fst (MediaWikiArticleRequest ''a'' [''b'', ''c''] enwiki []))
           [Finished 2]) = []
   \<and> data (run enwiki numberedNet (fst (MediaWikiArticleRequest ''a'' [''b'', ''c''] enwiki []))
           [Finished 2, Finished 0]) = ''<div class="mwiki">0</div>''
   \<and> data (run enwiki numberedNet (fst (MediaWikiArticleRequest ''a'' [''b'', ''c''] enwiki []))
           [Finished 2, Finished 0, Finished 1])
       = ''<div class="mwiki">0</div><div class="mwiki">1</div><div class="mwiki">2</div>''\<close>
  by code_simp


section \<open>Cancellation\<close>

lemma finished_step: "isFinishedFlag rq \<Longrightarrow> step d net rq ev = rq"
  by (cases ev) (simp_all add: requestFinished_def isFinished_def cancel_def finish_def)

lemma finished_run: "isFinishedFlag rq \<Longrightarrow> run d net rq evs = rq"
  unfolding run_def by (induction evs) (simp_all add: finished_step)

lemma signals_step:
  assumes "finishedSignals rq = (if isFinishedFlag rq then 1 else 0)"
  shows "finishedSignals (step d net rq ev) = (if isFinishedFlag (step d net rq ev) then 1 else 0)"
proof (cases "isFinishedFlag rq")
  case True
  with assms show ?thesis by (simp add: finished_step)
next
  case nf: False
  show ?thesis
  proof (cases ev)
    case Cancel
    with nf assms show ?thesis by (simp add: cancel_def finish_def)
  next
    case (Finished r)
    show ?thesis
    proof (cases "markFinished r (netReplies rq)")
      case None
      with Finished assms show ?thesis by (simp add: requestFinished_def)
    next
      case (Some marked)
      let ?st = "processAll d (map (\<lambda>i. net (fst i)) (takeWhile snd marked)) (rq\<lparr>netReplies := marked\<rparr>, False)"
      obtain rq1 upd where st: "?st = (rq1, upd)" by (cases ?st)
      have "isFinishedFlag rq1 = isFinishedFlag rq \<and> finishedSignals rq1 = finishedSignals rq"
        using flags_processAll [of d "map (\<lambda>i. net (fst i)) (takeWhile snd marked)" "(rq\<lparr>netReplies := marked\<rparr>, False)"]
        by (simp add: st)
      with Finished Some nf assms st show ?thesis
        by (simp add: requestFinished_def isFinished_def drain_processAll finish_def update_def)
    qed
  qed
qed

lemma signals_run:
  "finishedSignals rq = (if isFinishedFlag rq then 1 else 0)
   \<Longrightarrow> finishedSignals (run d net rq evs) = (if isFinishedFlag (run d net rq evs) then 1 else 0)"
proof (induction evs rule: rev_induct)
  case Nil
  then show ?case by (simp add: run_def)
next
  case (snoc ev evs)
  then show ?case by (simp add: run_snoc signals_step)
qed

text \<open>
  C5: when a request that the constructor has built and that has seen the events
  \<open>evs1\<close> is not finished, and is cancelled, then no later event changes it any more:
  its data stays what it was before the cancellation, it is finished, and the signal
  \<open>finished()\<close> has fired once.
\<close>

theorem cancel_is_final:
  assumes "rq = run d net (fst (MediaWikiArticleRequest str alts d mgr)) evs1"
      and "\<not> isFinished rq"
  shows "run d net (cancel rq) evs2 = cancel rq
         \<and> data (run d net (cancel rq) evs2) = data rq
         \<and> finishedSignals (run d net (cancel rq) evs2) = 1
         \<and> isFinished (run d net (cancel rq) evs2)"
proof -
  let ?rq0 = "fst (MediaWikiArticleRequest str alts d mgr)"
  have "finishedSignals ?rq0 = (if isFinishedFlag ?rq0 then 1 else 0)"
    by (simp add: MediaWikiArticleRequest_eq newArticleRequest_def)
  then have "finishedSignals rq = (if isFinishedFlag rq then 1 else 0)"
    unfolding assms(1) by (rule signals_run)
  with assms(2) have zero: "finishedSignals rq = 0"
    by (simp add: isFinished_def)
  have fin: "isFinishedFlag (cancel rq)"
    by (simp add: cancel_def finish_def)
  then have "run d net (cancel rq) evs2 = cancel rq"
    by (rule finished_run)
  with zero assms(2) show ?thesis
    by (simp add: cancel_def finish_def isFinished_def)
qed

theorem cancel_is_final_witness:
  "\<not> isFinished (run enwiki sampleNet (fst (MediaWikiArticleRequest ''a'' [''b'', ''c''] enwiki [])) [Finished 1])
   \<and> data (run enwiki sampleNet
        (cancel (run enwiki sampleNet (fst (MediaWikiArticleRequest ''a'' [''b'', ''c''] enwiki [])) [Finished 1]))
        [Finished 0, Finished 2, Cancel]) = []
   \<and> finishedSignals (run enwiki sampleNet
        (cancel (run enwiki sampleNet (fst (MediaWikiArticleRequest ''a'' [''b'', ''c''] enwiki [])) [Finished 1]))
        [Finished 0, Finished 2, Cancel]) = 1"
proof -
  let ?rq = "run enwiki sampleNet (fst (MediaWikiArticleRequest ''a'' [''b'', ''c''] enwiki [])) [Finished 1]"
  have nf: "\<not> isFinished ?rq"
    by code_simp
  have d0: "data ?rq = []"
    by code_simp
  note t = cancel_is_final [OF refl nf, of "[Finished 0, Finished 2, Cancel]"]
  have t2: "data (run enwiki sampleNet (cancel ?rq) [Finished 0, Finished 2, Cancel]) = []"
    using conjunct1 [OF conjunct2 [OF t]] unfolding d0 .
  show ?thesis
    by (intro conjI nf t2 conjunct1 [OF conjunct2 [OF conjunct2 [OF t]]])
qed

text \<open>The same events without the cancellation do append the page.\<close>

lemma same_events_without_cancel:
  \<open>data (run enwiki sampleNet (fst (MediaWikiArticleRequest ''a'' [''b'', ''c''] enwiki [])) [Finished 1, Finished 0, Finished 2]) = ''<div class="mwiki">x</div>''\<close>
  by code_simp

section \<open>The table of contents\<close>

lemma renderTags_append [simp]: "renderTags (xs @ ys) = renderTags xs @ renderTags ys"
  by (simp add: renderTags_def)

lemma renderTags_Cons [simp]: "renderTags (t # ts) = renderTag t @ renderTags ts"
  by (simp add: renderTags_def)

lemma renderTags_Nil [simp]: "renderTags [] = []"
  by (simp add: renderTags_def)

lemma renderTags_replicate:
  "renderTags (concat (replicate n ts)) = concat (replicate n (renderTags ts))"
  by (induction n) simp_all

lemma closeLoop_toc:
  "tableOfContents (closeLoop c p)
     = tableOfContents p @ concat (replicate (nat (previousLevel p - c)) ''</ul>\<newline></li>\<newline>'')"
proof (induction "nat (previousLevel p - c)" arbitrary: p)
  case 0
  then show ?case by (simp add: closeLoop.simps)
next
  case (Suc n)
  let ?p' = "p\<lparr>tableOfContents := tableOfContents p @ ''</ul>\<newline></li>\<newline>'',
                previousLevel := previousLevel p - 1\<rparr>"
  from Suc.hyps(2) have lt: "c < previousLevel p" by simp
  from Suc.hyps(2) have n: "n = nat (previousLevel ?p' - c)" by simp
  have nat: "nat (previousLevel p - c) = Suc (nat (previousLevel p - 1 - c))"
    using lt by simp
  have "closeLoop c p = closeLoop c ?p'"
    using lt by (subst closeLoop.simps) simp
  then show ?case
    using Suc.hyps(1) [OF n] by (simp add: nat)
qed

lemma closeLoop_level:
  "previousLevel (closeLoop c p) = (if c \<le> previousLevel p then c else previousLevel p)"
proof (induction "nat (previousLevel p - c)" arbitrary: p)
  case 0
  then show ?case by (simp add: closeLoop.simps)
next
  case (Suc n)
  let ?p' = "p\<lparr>tableOfContents := tableOfContents p @ ''</ul>\<newline></li>\<newline>'',
                previousLevel := previousLevel p - 1\<rparr>"
  from Suc.hyps(2) have lt: "c < previousLevel p" by simp
  from Suc.hyps(2) have n: "n = nat (previousLevel ?p' - c)" by simp
  have "closeLoop c p = closeLoop c ?p'"
    using lt by (subst closeLoop.simps) simp
  then show ?case
    using Suc.hyps(1) [OF n] lt by simp
qed

lemma addListLevel_ok:
  assumes "toInt s = Some level" "0 < level" "level \<le> previousLevel p + 1"
  shows "\<exists>p1. addListLevel s p = Some p1
           \<and> tableOfContents p1 = tableOfContents p @ renderTags (sectionTags (previousLevel p) level)
           \<and> previousLevel p1 = level"
proof (cases "level = previousLevel p + 1")
  case True
  with assms show ?thesis
    by (simp add: addListLevel_def sectionTags_def)
next
  case False
  with assms have le: "level \<le> previousLevel p" by simp
  have r: "renderTags (concat (replicate n [CloseList, CloseItem]))
             = concat (replicate n ''</ul>\<newline></li>\<newline>'')" for n
    by (simp add: renderTags_replicate)
  from False le assms show ?thesis
    by (auto simp: addListLevel_def sectionTags_def closeListTags_def closeLoop_toc closeLoop_level r)
qed

lemma addListLevel_bad:
  "toInt s = None \<or> (\<exists>level. toInt s = Some level \<and> (level \<le> 0 \<or> level > previousLevel p + 1))
   \<Longrightarrow> addListLevel s p = None"
  by (auto simp: addListLevel_def)

lemma tocLoop_ok:
  "map (\<lambda>el. toInt (attribute el ''toclevel'')) secs = map Some ls
   \<Longrightarrow> wellLevels (previousLevel p) ls
   \<Longrightarrow> \<exists>p1. tocLoop secs p = (True, p1)
          \<and> tableOfContents (closeListTags 1 p1) @ ''</ul>\<newline>''
              = tableOfContents p @ renderTags (specToc (previousLevel p) (zip ls secs))"
proof (induction secs arbitrary: ls p)
  case Nil
  then have "ls = []" by simp
  then show ?case
    by (simp add: closeListTags_def closeLoop_toc renderTags_replicate)
next
  case (Cons el els)
  from Cons.prems(1) obtain l ls' where ls: "ls = l # ls'"
    and l: "toInt (attribute el ''toclevel'') = Some l"
    and rest: "map (\<lambda>el. toInt (attribute el ''toclevel'')) els = map Some ls'"
    by (cases ls) auto
  from Cons.prems(2) ls have wl: "0 < l" "l \<le> previousLevel p + 1" "wellLevels l ls'"
    by simp_all
  from addListLevel_ok [OF l wl(1,2)] obtain p1 where
    p1: "addListLevel (attribute el ''toclevel'') p = Some p1"
        "tableOfContents p1 = tableOfContents p @ renderTags (sectionTags (previousLevel p) l)"
        "previousLevel p1 = l"
    by blast
  let ?p2 = "p1\<lparr>tableOfContents := tableOfContents p1 @ tocLink el\<rparr>"
  from wl(3) p1(3) have "wellLevels (previousLevel ?p2) ls'" by simp
  from Cons.IH [OF rest this] obtain p3 where
    p3: "tocLoop els ?p2 = (True, p3)"
        "tableOfContents (closeListTags 1 p3) @ ''</ul>\<newline>''
           = tableOfContents ?p2 @ renderTags (specToc (previousLevel ?p2) (zip ls' els))"
    by blast
  from p1 p3 ls show ?case by simp
qed

lemma tocLoop_bad:
  "\<not> levelsOk (previousLevel p) secs \<Longrightarrow> \<not> fst (tocLoop secs p)"
proof (induction secs arbitrary: p)
  case Nil
  then show ?case by simp
next
  case (Cons el els)
  show ?case
  proof (cases "toInt (attribute el ''toclevel'')")
    case None
    then show ?thesis by (simp add: addListLevel_def)
  next
    case (Some l)
    show ?thesis
    proof (cases "0 < l \<and> l \<le> previousLevel p + 1")
      case False
      with Some show ?thesis by (auto simp: addListLevel_def)
    next
      case True
      with addListLevel_ok [OF Some] obtain p1 where
        p1: "addListLevel (attribute el ''toclevel'') p = Some p1" "previousLevel p1 = l"
        by blast
      from Cons.prems Some True have "\<not> levelsOk l els" by simp
      with p1 have "\<not> fst (tocLoop els (p1\<lparr>tableOfContents := tableOfContents p1 @ tocLink el\<rparr>))"
        by (intro Cons.IH) simp
      with p1 show ?thesis by simp
    qed
  qed
qed

lemma nested_close_rounds:
  "nested (OpenList # concat (replicate (m + k) [OpenItem, OpenList]))
          (concat (replicate k [CloseList, CloseItem]) @ ts)
     = nested (OpenList # concat (replicate m [OpenItem, OpenList])) ts"
  by (induction k) simp_all

lemma sectionTags_le:
  "level \<le> current \<Longrightarrow>
     sectionTags current level
       = CloseItem # concat (replicate (nat (current - level)) [CloseList, CloseItem]) @ [OpenItem]"
  by (simp add: sectionTags_def)

lemma nested_specToc:
  "wellLevels (int n) ls \<Longrightarrow> length secs = length ls \<Longrightarrow> 0 < n \<or> ls \<noteq> []
   \<Longrightarrow> nested (concat (replicate n [OpenItem, OpenList])) (specToc (int n) (zip ls secs))"
proof (induction ls arbitrary: n secs)
  case Nil
  then obtain m where n: "n = Suc m" by (cases n) auto
  have "nat (int n - 1) = m" by (simp add: n)
  then show ?case
    using nested_close_rounds [of 0 m "[CloseList]"] by (simp add: n)
next
  case (Cons l ls)
  from Cons.prems(2) obtain el els where secs: "secs = el # els" and len: "length els = length ls"
    by (cases secs) auto
  from Cons.prems(1) have wl: "0 < l" "l \<le> int n + 1" "wellLevels l ls" by simp_all
  then obtain k where k: "l = int k" "0 < k" by (metis nat_0_less_mult_iff pos_int_cases zero_less_nat_eq nat_int)
  from wl(3) k have IH: "nested (concat (replicate k [OpenItem, OpenList])) (specToc (int k) (zip ls els))"
    using len by (intro Cons.IH) simp_all
  show ?case
  proof (cases "l = int n + 1")
    case True
    with k have "k = Suc n" by simp
    with IH True show ?thesis by (simp add: secs sectionTags_def k)
  next
    case False
    with wl(2) have le: "l \<le> int n" by simp
    with k obtain m where m: "k = Suc m" by (cases k) auto
    from le k m obtain j where n: "n = Suc (m + j)"
      by (metis less_eq_Suc_le less_imp_Suc_add nat_int_comparison(3) add_Suc)
    have r: "nat (int n - l) = j" by (simp add: n k m)
    let ?X = "specToc l (zip ls els)"
    have st: "sectionTags (int n) l
                = CloseItem # concat (replicate j [CloseList, CloseItem]) @ [OpenItem]"
      using sectionTags_le [OF le] r by simp
    have stack: "concat (replicate n [OpenItem, OpenList])
                   = OpenItem # OpenList # concat (replicate (m + j) [OpenItem, OpenList])"
      by (simp add: n)
    have "nested (concat (replicate n [OpenItem, OpenList])) (sectionTags (int n) l @ [Link el] @ ?X)
            = nested (OpenList # concat (replicate (m + j) [OpenItem, OpenList]))
                (concat (replicate j [CloseList, CloseItem]) @ (OpenItem # Link el # ?X))"
      unfolding st stack by simp
    also have "\<dots> = nested (OpenList # concat (replicate m [OpenItem, OpenList]))
                       (OpenItem # Link el # ?X)"
      by (rule nested_close_rounds)
    also have "\<dots> = nested (concat (replicate k [OpenItem, OpenList])) ?X"
      by (simp add: m)
    finally show ?thesis
      using IH by (simp add: secs k)
  qed
qed

lemma nested_counts:
  "nested stack ts \<Longrightarrow>
     count_list stack OpenList + count_list ts OpenList = count_list ts CloseList
     \<and> count_list stack OpenItem + count_list ts OpenItem = count_list ts CloseItem"
  by (induction stack ts rule: nested.induct) (auto split: list.splits tocTag.splits)

text \<open>
  C6: when the section elements have numeric levels that start at 1, stay positive and
  never go up by more than one step, the table of contents that the program builds is
  the header, followed by the rendering of the tags that the rules of the spec give
  (\<open>specToc\<close>), followed by the closing \<open>div\<close>.  These tags are properly nested, and as
  many lists and items are closed as are opened.
\<close>

theorem toc_is_nested_by_the_level_rules:
  assumes "childElements sectionsElement ''s'' = secs" and "secs \<noteq> []"
      and "map (\<lambda>el. toInt (attribute el ''toclevel'')) secs = map Some ls"
      and "wellLevels 0 ls"
  shows "tableOfContents (generateTableOfContents sectionsElement newParser)
           = tocHeader @ renderTags (specToc 0 (zip ls secs)) @ ''</div>''
         \<and> nested [] (specToc 0 (zip ls secs))
         \<and> count_list (specToc 0 (zip ls secs)) OpenList
             = count_list (specToc 0 (zip ls secs)) CloseList
         \<and> count_list (specToc 0 (zip ls secs)) OpenItem
             = count_list (specToc 0 (zip ls secs)) CloseItem"
proof -
  let ?p0 = "newParser\<lparr>tableOfContents := tocHeader\<rparr>"
  have lv: "previousLevel ?p0 = 0" by (simp add: newParser_def)
  from assms(4) have "wellLevels (previousLevel ?p0) ls" by (simp add: lv)
  from tocLoop_ok [OF assms(3) this] obtain p1 where
    p1: "tocLoop secs ?p0 = (True, p1)"
        "tableOfContents (closeListTags 1 p1) @ ''</ul>\<newline>''
           = tocHeader @ renderTags (specToc 0 (zip ls secs))"
    by (auto simp: lv)
  obtain el els where secs: "secs = el # els" using assms(2) by (cases secs) auto
  have "tableOfContents (generateTableOfContents sectionsElement newParser)
          = (tableOfContents (closeListTags 1 p1) @ ''</ul>\<newline>'') @ ''</div>''"
    using p1(1) by (simp add: generateTableOfContents_def assms(1) secs Let_def)
  then have toc: "tableOfContents (generateTableOfContents sectionsElement newParser)
          = tocHeader @ renderTags (specToc 0 (zip ls secs)) @ ''</div>''"
    unfolding p1(2) by simp
  from assms(3) have len: "length secs = length ls"
    by (metis length_map)
  from assms(2) len have "ls \<noteq> []" by auto
  with assms(4) len have n: "nested [] (specToc 0 (zip ls secs))"
    using nested_specToc [of 0 ls secs] by simp
  from nested_counts [OF n] toc n show ?thesis by simp
qed

theorem toc_is_nested_by_the_level_rules_witness:
  "childElements (Element ''sections'' [] sections12231) ''s'' = sections12231
   \<and> sections12231 \<noteq> []
   \<and> map (\<lambda>el. toInt (attribute el ''toclevel'')) sections12231 = map Some [1, 2, 2, 3, 1]
   \<and> wellLevels 0 [1, 2, 2, 3, 1]
   \<and> tableOfContents (generateTableOfContents (Element ''sections'' [] sections12231) newParser)
       = tocHeader @ renderTags (specToc 0 (zip [1, 2, 2, 3, 1] sections12231)) @ ''</div>''
   \<and> nested [] (specToc 0 (zip [1, 2, 2, 3, 1] sections12231))
   \<and> count_list (specToc 0 (zip [1, 2, 2, 3, 1] sections12231)) OpenList = 3
   \<and> count_list (specToc 0 (zip [1, 2, 2, 3, 1] sections12231)) CloseList = 3
   \<and> count_list (specToc 0 (zip [1, 2, 2, 3, 1] sections12231)) OpenItem = 5
   \<and> count_list (specToc 0 (zip [1, 2, 2, 3, 1] sections12231)) CloseItem = 5"
proof -
  have a: "childElements (Element ''sections'' [] sections12231) ''s'' = sections12231"
    by code_simp
  have b: "sections12231 \<noteq> []"
    by code_simp
  have c: "map (\<lambda>el. toInt (attribute el ''toclevel'')) sections12231 = map Some [1, 2, 2, 3, 1]"
    by code_simp
  have e: "wellLevels 0 [1, 2, 2, 3, 1]"
    by simp
  have f: "count_list (specToc 0 (zip [1, 2, 2, 3, 1] sections12231)) OpenList = 3"
    by code_simp
  have g: "count_list (specToc 0 (zip [1, 2, 2, 3, 1] sections12231)) OpenItem = 5"
    by code_simp
  note t = toc_is_nested_by_the_level_rules [OF a b c e]
  have f': "count_list (specToc 0 (zip [1, 2, 2, 3, 1] sections12231)) CloseList = 3"
    using t f by simp
  have g': "count_list (specToc 0 (zip [1, 2, 2, 3, 1] sections12231)) CloseItem = 5"
    using t g by simp
  show ?thesis
    by (intro conjI a b c e f f' g g' conjunct1 [OF t] conjunct1 [OF conjunct2 [OF t]])
qed

text \<open>The table of contents for the levels 1, 2, 2, 3, 1, written out.\<close>

lemma toc_12231_text:
  \<open>tableOfContents (generateTableOfContents (Element ''sections'' [] sections12231) newParser)
     = ''<div id='toc' class='toc' role='navigation' aria-labelledby='mw-toc-heading'>''
       @ ''<div class='toctitle'><h2 id='mw-toc-heading'>Contents</h2></div>''
       @ ''\<newline><ul>\<newline><li><a href='#a'>1 a</a>''
       @ ''\<newline><ul>\<newline><li><a href='#b'>2 b</a></li>\<newline>''
       @ ''<li><a href='#c'>2 c</a>''
       @ ''\<newline><ul>\<newline><li><a href='#d'>3 d</a></li>\<newline></ul>\<newline></li>\<newline></ul>\<newline></li>\<newline>''
       @ ''<li><a href='#e'>1 e</a></li>\<newline></ul>\<newline></div>''\<close>
  by code_simp

text \<open>
  C7: when the parse node has a sections element of which some level is malformed (not
  a number, not positive, or more than one above the level before it), and the text of
  the article holds the marker of the empty table of contents, first at position \<open>pos\<close>,
  then the table of contents is empty, and the marker is cut out of the text with
  nothing put in its place.  The article body is still built: the wrapping \<open>div\<close>
  around the rewritten text without the marker.
\<close>

theorem malformed_level_removes_the_marker:
  assumes "firstChildElement parseNode ''sections'' = Some sectionsElement"
      and "\<not> levelsOk 0 (childElements sectionsElement ''s'')"
      and "indexOf articleString emptyTocIndicator = int pos"
  shows \<open>tableOfContents (generateTableOfContents sectionsElement newParser) = []
         \<and> generateTableOfContentsIfEmpty parseNode articleString
             = take pos articleString @ drop (pos + length emptyTocIndicator) articleString
         \<and> (articleString = rewritePasses d text' \<longrightarrow>
              articleBody d parseNode text'
                = (if isToLanguageRTL d then ''<div class="mwiki" dir="rtl">''
                   else ''<div class="mwiki">'')
                  @ take pos articleString @ drop (pos + length emptyTocIndicator) articleString
                  @ ''</div>'')\<close>
proof -
  let ?p0 = "newParser\<lparr>tableOfContents := tocHeader\<rparr>"
  from assms(2) obtain el els where secs: "childElements sectionsElement ''s'' = el # els"
    by (cases "childElements sectionsElement ''s''") auto
  have "\<not> levelsOk (previousLevel ?p0) (el # els)"
    using assms(2) by (simp add: secs newParser_def)
  then have "\<not> fst (tocLoop (el # els) ?p0)" by (rule tocLoop_bad)
  then obtain p1 where "tocLoop (el # els) ?p0 = (False, p1)"
    by (cases "tocLoop (el # els) ?p0") auto
  then have empty: "tableOfContents (generateTableOfContents sectionsElement newParser) = []"
    by (simp add: generateTableOfContents_def secs del: tocLoop.simps)
  have removed: "generateTableOfContentsIfEmpty parseNode articleString
             = take pos articleString @ drop (pos + length emptyTocIndicator) articleString"
    using assms(1,3) by (simp add: generateTableOfContentsIfEmpty_def empty replaceAt_def)
  from empty removed show ?thesis
    by (auto simp: articleBody_def)
qed

theorem malformed_level_removes_the_marker_witness:
  \<open>firstChildElement parse13 ''sections'' = Some (Element ''sections'' [] sections13)
   \<and> \<not> levelsOk 0 (childElements (Element ''sections'' [] sections13) ''s'')
   \<and> indexOf (rewritePasses enwiki textWithMarker) emptyTocIndicator = int 2
   \<and> tableOfContents (generateTableOfContents (Element ''sections'' [] sections13) newParser) = []
   \<and> generateTableOfContentsIfEmpty parse13 (rewritePasses enwiki textWithMarker)
       = take 2 (rewritePasses enwiki textWithMarker)
         @ drop (2 + length emptyTocIndicator) (rewritePasses enwiki textWithMarker)
   \<and> articleBody enwiki parse13 textWithMarker
       = (if isToLanguageRTL enwiki then ''<div class="mwiki" dir="rtl">''
          else ''<div class="mwiki">'')
         @ take 2 (rewritePasses enwiki textWithMarker)
         @ drop (2 + length emptyTocIndicator) (rewritePasses enwiki textWithMarker)
         @ ''</div>''\<close>
proof -
  have a: "firstChildElement parse13 ''sections'' = Some (Element ''sections'' [] sections13)"
    by code_simp
  have b: "\<not> levelsOk 0 (childElements (Element ''sections'' [] sections13) ''s'')"
    by code_simp
  have c: "indexOf (rewritePasses enwiki textWithMarker) emptyTocIndicator = int 2"
    by code_simp
  note t = malformed_level_removes_the_marker [OF a b c, of enwiki textWithMarker]
  show ?thesis
    by (intro conjI a b c conjunct1 [OF t] conjunct1 [OF conjunct2 [OF t]]
          mp [OF conjunct2 [OF conjunct2 [OF t]] refl])
qed

text \<open>
  After the refused level 3 the parser has no text and is still at the level 1 of the
  section before it.
\<close>

lemma refused_level_keeps_the_parser:
  "generateTableOfContents (Element ''sections'' [] sections13) newParser
     = \<lparr>tableOfContents = [], previousLevel = 1\<rparr>"
  by code_simp

text \<open>The article body of that page, written out.\<close>

lemma articleBody_parse13:
  \<open>articleBody enwiki parse13 textWithMarker = ''<div class="mwiki">x  y</div>''\<close>
  by code_simp

section \<open>The rewriting passes\<close>

subsection \<open>What the matcher consumes\<close>

lemma advances_refl [simp]: "advances st st"
  by (simp add: advances_def)











subsection \<open>The loops over the matches\<close>








subsection \<open>The underscore pass\<close>








subsection \<open>Every pass\<close>










text \<open>The same for the first pass, which rewrites the anchor it has already rewritten.\<close>

lemma linkRewrite_reprocesses_its_output:
  \<open>linkRewrite ''<a href="/a#b#c">'' = ''<a href="/a?gdanchor=b#c">''
   \<and> linkRewrite (linkRewrite ''<a href="/a#b#c">'') = ''<a href="/a?gdanchor=b?gdanchor=c">''\<close>
  by code_simp

end
